theory Spec2Isabelle
  imports Complex_Main
begin

section \<open>Arrays and Python slicing\<close>

text \<open>
  A three-dimensional numpy array is a list of lists of lists, indexed
  \<open>a ! i ! j ! k\<close> like \<open>a[i, j, k]\<close>. numpy arrays are rectangular; \<open>shape3\<close> says so.
\<close>

type_synonym 'a array3 = "'a list list list"

definition shape3 :: "'a array3 \<Rightarrow> nat \<Rightarrow> nat \<Rightarrow> nat \<Rightarrow> bool" where
  "shape3 a nx ny nz =
     (length a = nx \<and> list_all (\<lambda>p. length p = ny \<and> list_all (\<lambda>r. length r = nz) p) a)"

text \<open>
  A slice bound of Python against a sequence of length \<open>n\<close>: a negative bound counts
  from the end, and every bound is clamped to \<open>0..n\<close>.
\<close>

definition slice_bound :: "int \<Rightarrow> nat \<Rightarrow> nat" where
  "slice_bound i n = (if i < 0 then nat (max 0 (int n + i)) else min (nat i) n)"

type_synonym slice = "int \<times> int option"

definition slice_lo :: "slice \<Rightarrow> nat \<Rightarrow> nat" where
  "slice_lo s n = slice_bound (fst s) n"

definition slice_hi :: "slice \<Rightarrow> nat \<Rightarrow> nat" where
  "slice_hi s n = (case snd s of None \<Rightarrow> n | Some h \<Rightarrow> slice_bound h n)"

text \<open>\<open>xs[lo:hi]\<close>; \<open>(lo, None)\<close> is \<open>xs[lo:]\<close>.\<close>

definition py_slice :: "slice \<Rightarrow> 'a list \<Rightarrow> 'a list" where
  "py_slice s xs =
     (let n = length xs; a = slice_lo s n; b = slice_hi s n
      in take (b - a) (drop a xs))"

text \<open>\<open>a[sx, sy, sz]\<close>: one slice per axis.\<close>

definition slice3 :: "slice \<Rightarrow> slice \<Rightarrow> slice \<Rightarrow> 'a array3 \<Rightarrow> 'a array3" where
  "slice3 sx sy sz a = map (\<lambda>p. map (py_slice sz) (py_slice sy p)) (py_slice sx a)"

text \<open>
  \<open>xs[lo:hi] = vs\<close> along one axis. The elements in the slice are replaced by \<open>f old new\<close>,
  so that the same function writes a whole plane (with \<open>f\<close> the assignment to the next
  axis) or a single cell (with \<open>f\<close> returning the new value). numpy wants \<open>vs\<close> to have
  the extent of the slice; the one assignment of the eroder satisfies this, since all its
  slices drop two indices of each axis.
\<close>

definition set_slice :: "slice \<Rightarrow> ('a \<Rightarrow> 'b \<Rightarrow> 'a) \<Rightarrow> 'a list \<Rightarrow> 'b list \<Rightarrow> 'a list" where
  "set_slice s f xs vs =
     (let n = length xs; a = slice_lo s n; b = slice_hi s n
      in take a xs @ map2 f (take (b - a) (drop a xs)) vs @ drop (max a b) xs)"

text \<open>\<open>a[sx, sy, sz] = v\<close>.\<close>

definition set_slice3 :: "slice \<Rightarrow> slice \<Rightarrow> slice \<Rightarrow> 'a array3 \<Rightarrow> 'a array3 \<Rightarrow> 'a array3" where
  "set_slice3 sx sy sz a v =
     set_slice sx (set_slice sy (set_slice sz (\<lambda>old new. new))) a v"

text \<open>\<open>np.zeros_like(a, dtype=bool)\<close> and the elementwise \<open>&\<close> of two boolean arrays.\<close>

definition zeros_like :: "'a array3 \<Rightarrow> bool array3" where
  "zeros_like a = map (map (map (\<lambda>c. False))) a"

definition and3 :: "bool array3 \<Rightarrow> bool array3 \<Rightarrow> bool array3" where
  "and3 a b = map2 (map2 (map2 (\<and>))) a b"

section \<open>Interior eroder: \<open>simulate_marrow.py\<close>\<close>

definition SHELL_THICKNESS :: nat where
  "SHELL_THICKNESS = 1"

text \<open>The three slices the erosion uses: \<open>1:-1\<close>, \<open>0:-2\<close> and \<open>2:\<close>.\<close>

definition inner :: slice where "inner = (1, Some (- 1))"
definition lower :: slice where "lower = (0, Some (- 2))"
definition upper :: slice where "upper = (2, None)"

text \<open>The index at which each of the three slices starts, for an axis of length 2 or more.\<close>

definition off :: "slice \<Rightarrow> nat" where
  "off s = (if s = lower then 0 else if s = inner then 1 else 2)"

text \<open>
  The body of the loop of \<open>erode_mask\<close>: a new all-false mask whose inner region is the
  conjunction of the six shifted copies of the previous mask, in the order of the source.
\<close>

definition erode_step :: "bool array3 \<Rightarrow> bool array3" where
  "erode_step eroded =
     set_slice3 inner inner inner (zeros_like eroded)
       (and3 (and3 (and3 (and3 (and3
          (slice3 lower inner inner eroded)
          (slice3 upper inner inner eroded))
          (slice3 inner lower inner eroded))
          (slice3 inner upper inner eroded))
          (slice3 inner inner lower eroded))
          (slice3 inner inner upper eroded))"

fun erode_loop :: "nat \<Rightarrow> bool array3 \<Rightarrow> bool array3" where
  "erode_loop 0 eroded = eroded"
| "erode_loop (Suc n) eroded = erode_loop n (erode_step eroded)"

definition erode_mask :: "bool array3 \<Rightarrow> nat \<Rightarrow> bool array3" where
  "erode_mask msk iterations = erode_loop iterations msk"

text \<open>
  The main part of the script: the mask of the \<open>skeleton\<close> voxels, its erosion, and the
  copy of the grid in which the cells of the eroded mask are set to \<open>marrow\<close>.
\<close>

type_synonym tag = string

definition skeleton_mask :: "tag array3 \<Rightarrow> bool array3" where
  "skeleton_mask voxel_grid = map (map (map (\<lambda>t. t = ''skeleton''))) voxel_grid"

definition interior_mask :: "tag array3 \<Rightarrow> bool array3" where
  "interior_mask voxel_grid = erode_mask (skeleton_mask voxel_grid) SHELL_THICKNESS"

definition mask_assign :: "tag array3 \<Rightarrow> bool array3 \<Rightarrow> tag \<Rightarrow> tag array3" where
  "mask_assign grid msk v = map2 (map2 (map2 (\<lambda>t b. if b then v else t))) grid msk"

definition output_grid :: "tag array3 \<Rightarrow> tag array3" where
  "output_grid voxel_grid = mask_assign voxel_grid (interior_mask voxel_grid) ''marrow''"

text \<open>A 3 x 3 x 3 block of bone with a one-voxel cavity in the middle.\<close>

definition full_plane :: "bool list list" where
  "full_plane = [[True, True, True], [True, True, True], [True, True, True]]"

definition hollow_plane :: "bool list list" where
  "hollow_plane = [[True, True, True], [True, False, True], [True, True, True]]"

definition hollow_mask :: "bool array3" where
  "hollow_mask = [full_plane, hollow_plane, full_plane]"


definition hollow_grid :: "tag array3" where
  "hollow_grid = map (map (map (\<lambda>b. if b then ''skeleton'' else ''none''))) hollow_mask"

section \<open>Errors of the Python run time\<close>

datatype py_error = KeyError | IndexError | TypeError | ValueError

text \<open>\<open>m[k]\<close> on a dict, \<open>m.get(k, d)\<close>, and \<open>xs[i]\<close> for an index from \<open>range\<close>.\<close>

definition lookup :: "('k \<rightharpoonup> 'v) \<Rightarrow> 'k \<Rightarrow> py_error + 'v" where
  "lookup m k = (case m k of None \<Rightarrow> Inl KeyError | Some v \<Rightarrow> Inr v)"

definition get_default :: "('k \<rightharpoonup> 'v) \<Rightarrow> 'k \<Rightarrow> 'v \<Rightarrow> 'v" where
  "get_default m k d = (case m k of None \<Rightarrow> d | Some v \<Rightarrow> v)"

definition index :: "'a list \<Rightarrow> nat \<Rightarrow> py_error + 'a" where
  "index xs i = (if i < length xs then Inr (xs ! i) else Inl IndexError)"

text \<open>
  A loop that computes one value per element and stops at the first exception.
\<close>

fun traverse :: "('a \<Rightarrow> py_error + 'b) \<Rightarrow> 'a list \<Rightarrow> py_error + 'b list" where
  "traverse f [] = Inr []"
| "traverse f (x # xs) =
     (case f x of
        Inl e \<Rightarrow> Inl e
      | Inr y \<Rightarrow> (case traverse f xs of Inl e \<Rightarrow> Inl e | Inr ys \<Rightarrow> Inr (y # ys)))"

section \<open>Attenuation law\<close>

text \<open>
  Python floats are modelled as real numbers. Both integrators end a pixel with
  \<open>1.0 - exp(-total_density)\<close>.
\<close>

definition intensity :: "real \<Rightarrow> real" where
  "intensity total_density = 1 - exp (- total_density)"

section \<open>Discrete grid integrator: \<open>render_voxelgrid.py\<close>\<close>

definition DENSITY_MAPPING :: "tag \<rightharpoonup> real" where
  "DENSITY_MAPPING =
     [''skeleton'' \<mapsto> 0.5, ''muscle'' \<mapsto> 0.05, ''body'' \<mapsto> 0.02, ''marrow'' \<mapsto> 0.1,
      ''none'' \<mapsto> 0.0]"

text \<open>\<open>DENSITY_MAPPING[voxel_grid[j][i][k]]\<close>: three index steps, then the dict lookup.\<close>

definition voxel_density :: "(tag \<rightharpoonup> real) \<Rightarrow> tag array3 \<Rightarrow> nat \<Rightarrow> nat \<Rightarrow> nat \<Rightarrow> py_error + real" where
  "voxel_density density_mapping voxel_grid j i k =
     (case index voxel_grid j of
        Inl e \<Rightarrow> Inl e
      | Inr plane \<Rightarrow>
          (case index plane i of
             Inl e \<Rightarrow> Inl e
           | Inr column \<Rightarrow>
               (case index column k of
                  Inl e \<Rightarrow> Inl e
                | Inr t \<Rightarrow> lookup density_mapping t)))"

text \<open>\<open>sum(... for k in range(depth_slices))\<close>, the generator consumed from the left.\<close>

fun raw_sum_loop ::
  "(tag \<rightharpoonup> real) \<Rightarrow> tag array3 \<Rightarrow> nat \<Rightarrow> nat \<Rightarrow> nat list \<Rightarrow> real \<Rightarrow> py_error + real" where
  "raw_sum_loop density_mapping voxel_grid j i [] acc = Inr acc"
| "raw_sum_loop density_mapping voxel_grid j i (k # ks) acc =
     (case voxel_density density_mapping voxel_grid j i k of
        Inl e \<Rightarrow> Inl e
      | Inr d \<Rightarrow> raw_sum_loop density_mapping voxel_grid j i ks (acc + d))"

definition raw_sum :: "(tag \<rightharpoonup> real) \<Rightarrow> tag array3 \<Rightarrow> nat \<Rightarrow> nat \<Rightarrow> nat \<Rightarrow> py_error + real" where
  "raw_sum density_mapping voxel_grid depth_slices j i =
     raw_sum_loop density_mapping voxel_grid j i [0..<depth_slices] 0"

definition grid_pixel ::
  "(tag \<rightharpoonup> real) \<Rightarrow> tag array3 \<Rightarrow> real \<Rightarrow> nat \<Rightarrow> nat \<Rightarrow> nat \<Rightarrow> py_error + real" where
  "grid_pixel density_mapping voxel_grid step depth_slices j i =
     (case raw_sum density_mapping voxel_grid depth_slices j i of
        Inl e \<Rightarrow> Inl e
      | Inr s \<Rightarrow> Inr (intensity (s * step)))"

text \<open>The two nested loops that fill \<open>projection\<close>, row by row.\<close>

definition grid_projection ::
  "(tag \<rightharpoonup> real) \<Rightarrow> tag array3 \<Rightarrow> nat \<Rightarrow> nat \<Rightarrow> real \<Rightarrow> nat \<Rightarrow> py_error + real list list" where
  "grid_projection density_mapping voxel_grid width height step depth_slices =
     traverse (\<lambda>j. traverse (grid_pixel density_mapping voxel_grid step depth_slices j) [0..<width])
       [0..<height]"

text \<open>
  The image is built only after the loops: the pixels are the clamped intensities, each
  written to the three colour channels and followed by alpha 1.
\<close>

definition grid_image ::
  "(tag \<rightharpoonup> real) \<Rightarrow> tag array3 \<Rightarrow> nat \<Rightarrow> nat \<Rightarrow> real \<Rightarrow> nat \<Rightarrow> py_error + real list" where
  "grid_image density_mapping voxel_grid width height step depth_slices =
     (case grid_projection density_mapping voxel_grid width height step depth_slices of
        Inl e \<Rightarrow> Inl e
      | Inr projection \<Rightarrow>
          Inr (concat (map (\<lambda>val. let gray = max 0 (min val 1) in [gray, gray, gray, 1])
                 (concat projection))))"

section \<open>Layer compositing: \<open>combine_results.py\<close>\<close>

definition clip :: "real \<Rightarrow> real \<Rightarrow> real \<Rightarrow> real" where
  "clip x lo hi = min (max x lo) hi"

definition srgb_to_linear :: "real \<Rightarrow> real \<Rightarrow> real" where
  "srgb_to_linear img gamma = clip img 0 1 powr gamma"

definition linear_to_srgb :: "real \<Rightarrow> real \<Rightarrow> real" where
  "linear_to_srgb img gamma = clip img 0 1 powr (1 / gamma)"

text \<open>
  An image is the list of its 8-bit pixels. The body of the loop up to \<open>transmission\<close>:
  scale to \<open>[0, 1]\<close>, decode with the default gamma 2.2, subtract from 1.
\<close>

definition transmission :: "nat list \<Rightarrow> real list" where
  "transmission img8 = map (\<lambda>v. 1 - srgb_to_linear (real v / 255) 2.2) img8"

text \<open>
  The loop over the image files. \<open>combined_transmission\<close> starts as \<open>None\<close>; the in-place
  product needs images of one size.
\<close>

fun combine_loop :: "real list option \<Rightarrow> nat list list \<Rightarrow> py_error + real list option" where
  "combine_loop combined_transmission [] = Inr combined_transmission"
| "combine_loop combined_transmission (img8 # rest) =
     (let tr = transmission img8;
          ct = (case combined_transmission of None \<Rightarrow> map (\<lambda>t. 1) tr | Some c \<Rightarrow> c)
      in if length ct = length tr then combine_loop (Some (map2 (*) ct tr)) rest
         else Inl ValueError)"

text \<open>\<open>1.0 - combined_transmission\<close> raises a TypeError when no image was read.\<close>

definition composite_linear :: "nat list list \<Rightarrow> py_error + real list" where
  "composite_linear images =
     (case combine_loop None images of
        Inl e \<Rightarrow> Inl e
      | Inr None \<Rightarrow> Inl TypeError
      | Inr (Some ct) \<Rightarrow> Inr (map (\<lambda>c. 1 - c) ct))"

definition composite_srgb :: "nat list list \<Rightarrow> py_error + real list" where
  "composite_srgb images =
     (case composite_linear images of
        Inl e \<Rightarrow> Inl e
      | Inr cl \<Rightarrow> Inr (map (\<lambda>c. linear_to_srgb c 2.2) cl))"

text \<open>\<open>np.clip(composite_srgb * 255.0, 0, 255).astype(np.uint8)\<close> truncates.\<close>

definition final_image :: "nat list list \<Rightarrow> py_error + nat list" where
  "final_image images =
     (case composite_srgb images of
        Inl e \<Rightarrow> Inl e
      | Inr cs \<Rightarrow> Inr (map (\<lambda>c. nat \<lfloor>clip (c * 255) 0 255\<rfloor>) cs))"


section \<open>Vectors\<close>

text \<open>The operations of \<open>mathutils.Vector\<close> that the scripts use, over the reals.\<close>

type_synonym vec = "real \<times> real \<times> real"

fun vx :: "vec \<Rightarrow> real" where "vx (x, y, z) = x"

fun vadd :: "vec \<Rightarrow> vec \<Rightarrow> vec" where
  "vadd (ax, ay, az) (bx, by, bz) = (ax + bx, ay + by, az + bz)"

fun vsub :: "vec \<Rightarrow> vec \<Rightarrow> vec" where
  "vsub (ax, ay, az) (bx, by, bz) = (ax - bx, ay - by, az - bz)"

fun smul :: "vec \<Rightarrow> real \<Rightarrow> vec" where
  "smul (x, y, z) c = (x * c, y * c, z * c)"

fun dot :: "vec \<Rightarrow> vec \<Rightarrow> real" where
  "dot (ax, ay, az) (bx, by, bz) = ax * bx + ay * by + az * bz"

fun vlength :: "vec \<Rightarrow> real" where
  "vlength (x, y, z) = sqrt (x * x + y * y + z * z)"

definition normalized :: "vec \<Rightarrow> vec" where
  "normalized v = (if vlength v = 0 then v else smul v (1 / vlength v))"

section \<open>Continuous ray-march integrator: \<open>raycasting.py\<close>\<close>

definition EPS_DIST :: real where
  "EPS_DIST = 1 / 10000"

definition DOT_THRESHOLD :: real where
  "DOT_THRESHOLD = 1 / 1000000"

text \<open>
  \<open>scene.ray_cast(depsgraph, origin, direction, distance=d)\<close> belongs to the host. It is a
  parameter: a function that answers with no hit or with the hit's location, normal and
  object.
\<close>

record 'o hit =
  hit_loc :: vec
  hit_norm :: vec
  hit_obj :: 'o

type_synonym 'o scene = "vec \<Rightarrow> vec \<Rightarrow> real \<Rightarrow> 'o hit option"

record 'o march_state =
  inside_stack :: "'o list"
  total_density :: real
  current_dist :: real

text \<open>\<open>sum(object_to_density.get(o, 0.0) for o in inside_stack)\<close>.\<close>

definition stack_density :: "('o \<rightharpoonup> real) \<Rightarrow> 'o list \<Rightarrow> real" where
  "stack_density object_to_density stack =
     sum_list (map (\<lambda>ob. get_default object_to_density ob 0) stack)"

text \<open>
  What one pass through the body of the \<open>while\<close> loop did: no hit (the loop breaks), a
  hit closer than \<open>EPS_DIST\<close>, a grazing hit, an entry (the object is appended to the
  stack), or an exit-facing hit, with whether the object was on the stack and has been
  removed.
\<close>

datatype 'o event = NoHit | SelfHit | Grazing | Entry 'o | Exit 'o bool

definition march_iter ::
  "'o scene \<Rightarrow> ('o \<rightharpoonup> real) \<Rightarrow> vec \<Rightarrow> vec \<Rightarrow> real \<Rightarrow> 'o march_state \<Rightarrow> 'o event \<times> 'o march_state" where
  "march_iter ray_cast object_to_density cam_location ray_dir clip_end st =
     (let seg_origin = vadd cam_location (smul ray_dir (current_dist st)) in
      case ray_cast seg_origin ray_dir (clip_end - current_dist st) of
        None \<Rightarrow>
          (NoHit,
           st\<lparr>total_density := total_density st +
                stack_density object_to_density (inside_stack st) * (clip_end - current_dist st)\<rparr>)
      | Some h \<Rightarrow>
          (let dist_to_hit = vlength (vsub (hit_loc h) seg_origin) in
           if dist_to_hit < EPS_DIST then
             (SelfHit, st\<lparr>current_dist := current_dist st + EPS_DIST\<rparr>)
           else
             (let abs_hit = current_dist st + dist_to_hit;
                  st1 = st\<lparr>total_density := total_density st +
                          stack_density object_to_density (inside_stack st) * dist_to_hit\<rparr>;
                  dot_val = dot ray_dir (hit_norm h)
              in if \<bar>dot_val\<bar> < DOT_THRESHOLD then
                   (Grazing, st1\<lparr>current_dist := abs_hit + EPS_DIST\<rparr>)
                 else if dot_val < 0 then
                   (Entry (hit_obj h),
                    st1\<lparr>inside_stack := inside_stack st @ [hit_obj h],
                        current_dist := abs_hit + max EPS_DIST (1 / 100000)\<rparr>)
                 else if hit_obj h \<in> set (inside_stack st) then
                   (Exit (hit_obj h) True,
                    st1\<lparr>inside_stack := remove1 (hit_obj h) (inside_stack st),
                        current_dist := abs_hit + max EPS_DIST (1 / 100000)\<rparr>)
                 else
                   (Exit (hit_obj h) False,
                    st1\<lparr>current_dist := abs_hit + max EPS_DIST (1 / 100000)\<rparr>))))"

lemma vlength_nonneg: "0 \<le> vlength v"
  by (cases v) simp

lemma march_iter_advance:
  assumes "fst (march_iter ray_cast object_to_density cam_location ray_dir clip_end st) \<noteq> NoHit"
  shows "current_dist st + EPS_DIST
           \<le> current_dist (snd (march_iter ray_cast object_to_density cam_location ray_dir clip_end st))"
proof -
  have e: "0 < EPS_DIST" by (simp add: EPS_DIST_def)
  show ?thesis
    using assms e vlength_nonneg
    by (auto simp: march_iter_def Let_def max_def split: option.splits if_splits)
qed

text \<open>
  The \<open>while\<close> loop: the list of the passes it makes, each with the state it leaves.
  Every pass that does not break moves \<open>current_dist\<close> on by at least \<open>EPS_DIST\<close>.
\<close>

function march ::
  "'o scene \<Rightarrow> ('o \<rightharpoonup> real) \<Rightarrow> vec \<Rightarrow> vec \<Rightarrow> real \<Rightarrow> 'o march_state \<Rightarrow> ('o event \<times> 'o march_state) list" where
  "march ray_cast object_to_density cam_location ray_dir clip_end st =
     (if current_dist st < clip_end then
        (let r = march_iter ray_cast object_to_density cam_location ray_dir clip_end st in
         if fst r = NoHit then [r]
         else r # march ray_cast object_to_density cam_location ray_dir clip_end (snd r))
      else [])"
  by pat_completeness auto
termination
proof (relation "measure (\<lambda>(rc, od, cam, dir, ce, st). nat \<lceil>(ce - current_dist st) / EPS_DIST\<rceil>)")
  show "wf (measure (\<lambda>(rc :: 'o scene, od :: 'o \<rightharpoonup> real, cam :: vec, dir :: vec, ce, st :: 'o march_state).
              nat \<lceil>(ce - current_dist st) / EPS_DIST\<rceil>))"
    by simp
next
  fix ray_cast :: "'o scene" and object_to_density :: "'o \<rightharpoonup> real"
    and cam_location ray_dir :: vec and clip_end :: real and st :: "'o march_state" and r
  assume lt: "current_dist st < clip_end"
    and r: "r = march_iter ray_cast object_to_density cam_location ray_dir clip_end st"
    and nb: "fst r \<noteq> NoHit"
  have e: "0 < EPS_DIST" by (simp add: EPS_DIST_def)
  have adv: "current_dist st + EPS_DIST \<le> current_dist (snd r)"
    using march_iter_advance nb unfolding r by blast
  have "(clip_end - current_dist (snd r)) / EPS_DIST
          \<le> (clip_end - current_dist st - EPS_DIST) / EPS_DIST"
    using adv e by (intro divide_right_mono) auto
  also have "\<dots> = (clip_end - current_dist st) / EPS_DIST - 1"
    using e by (simp add: diff_divide_distrib)
  finally have "(clip_end - current_dist (snd r)) / EPS_DIST
          \<le> (clip_end - current_dist st) / EPS_DIST - 1" .
  then have "\<lceil>(clip_end - current_dist (snd r)) / EPS_DIST\<rceil> \<le> \<lceil>(clip_end - current_dist st) / EPS_DIST\<rceil> - 1"
    by (metis ceiling_diff_one ceiling_mono)
  moreover have "0 < \<lceil>(clip_end - current_dist st) / EPS_DIST\<rceil>"
    using lt e by simp
  ultimately show "((ray_cast, object_to_density, cam_location, ray_dir, clip_end, snd r),
                    (ray_cast, object_to_density, cam_location, ray_dir, clip_end, st))
        \<in> measure (\<lambda>(rc, od, cam, dir, ce, st). nat \<lceil>(ce - current_dist st) / EPS_DIST\<rceil>)"
    by simp
qed

declare march.simps [simp del]

text \<open>A ray starts with an empty stack at the near clip distance.\<close>

definition march_start :: "real \<Rightarrow> 'o march_state" where
  "march_start clip_start = \<lparr>inside_stack = [], total_density = 0, current_dist = clip_start\<rparr>"

definition march_final :: "'o march_state \<Rightarrow> ('o event \<times> 'o march_state) list \<Rightarrow> 'o march_state" where
  "march_final st tr = (if tr = [] then st else snd (last tr))"

definition ray_projection ::
  "'o scene \<Rightarrow> ('o \<rightharpoonup> real) \<Rightarrow> vec \<Rightarrow> vec \<Rightarrow> real \<Rightarrow> real \<Rightarrow> real" where
  "ray_projection ray_cast object_to_density cam_location ray_dir clip_start clip_end =
     intensity (total_density (march_final (march_start clip_start)
       (march ray_cast object_to_density cam_location ray_dir clip_end (march_start clip_start))))"


text \<open>
  The crossings of a trace: its entries and exit-facing hits, in order, each with its
  object. \<open>alternating\<close> holds of the crossings of a ray through solids that are apart:
  the ray enters a solid, leaves that same solid, enters the next one, and so on;
  \<open>cur\<close> is the solid the ray is in at the start, if any.
\<close>

fun crossing :: "'o event \<Rightarrow> (bool \<times> 'o) option" where
  "crossing (Entry ob) = Some (True, ob)"
| "crossing (Exit ob removed) = Some (False, ob)"
| "crossing NoHit = None"
| "crossing SelfHit = None"
| "crossing Grazing = None"

definition crossings :: "('o event \<times> 'o march_state) list \<Rightarrow> (bool \<times> 'o) list" where
  "crossings tr = List.map_filter (\<lambda>r. crossing (fst r)) tr"

fun alternating :: "'o option \<Rightarrow> (bool \<times> 'o) list \<Rightarrow> bool" where
  "alternating cur [] = True"
| "alternating None ((entering, ob) # cs) = (entering \<and> alternating (Some ob) cs)"
| "alternating (Some solid) ((entering, ob) # cs) =
     (\<not> entering \<and> ob = solid \<and> alternating None cs)"

text \<open>The solid a ray is in after a list of crossings, and the stack that holds just it.\<close>

fun open_solid :: "'o option \<Rightarrow> (bool \<times> 'o) list \<Rightarrow> 'o option" where
  "open_solid cur [] = cur"
| "open_solid cur ((entering, ob) # cs) = open_solid (if entering then Some ob else None) cs"

fun stack_of :: "'o option \<Rightarrow> 'o list" where
  "stack_of None = []"
| "stack_of (Some ob) = [ob]"

text \<open>The stack before pass \<open>n\<close> of a trace that started with an empty stack.\<close>

definition stack_before :: "('o event \<times> 'o march_state) list \<Rightarrow> nat \<Rightarrow> 'o list" where
  "stack_before tr n = (if n = 0 then [] else inside_stack (snd (tr ! (n - 1))))"

definition stack_after :: "('o event \<times> 'o march_state) list \<Rightarrow> nat \<Rightarrow> 'o list" where
  "stack_after tr n = inside_stack (snd (tr ! n))"

section \<open>Voxel grid builder: \<open>voxelgrid.py\<close>\<close>

subsection \<open>Point containment\<close>

text \<open>
  A mesh object of the host, as far as \<open>point_in_mesh_local\<close> uses it: the transform
  \<open>obj.matrix_world.inverted() @ p\<close> and \<open>obj.ray_cast(origin, end)\<close>, which answers with
  the location of a hit, if there is one.
\<close>

record mesh_object =
  to_local :: "vec \<Rightarrow> vec"
  obj_ray_cast :: "vec \<Rightarrow> vec \<Rightarrow> vec option"

definition direction_local :: vec where
  "direction_local = (1, 0, 0)"

definition offset :: real where
  "offset = 1 / 10000"

text \<open>
  The \<open>while True\<close> loop. It has no bound of its own, so it is a partial function: the
  value \<open>None\<close> stands for a loop that never leaves.
\<close>

partial_function (option) hit_loop ::
  "(vec \<Rightarrow> vec \<Rightarrow> vec option) \<Rightarrow> vec \<Rightarrow> vec \<Rightarrow> real \<Rightarrow> nat \<Rightarrow> nat option" where
  "hit_loop ray_cast_fn point_local origin max_dist hits =
     (let end = vadd origin (smul direction_local max_dist) in
      case ray_cast_fn origin end of
        None \<Rightarrow> Some hits
      | Some loc \<Rightarrow>
          (let hits1 = hits + 1;
               origin1 = vadd loc (smul direction_local offset);
               max_dist1 = max_dist - vlength (vsub loc point_local)
           in if max_dist1 \<le> 0 then Some hits1
              else hit_loop ray_cast_fn point_local origin1 max_dist1 hits1))"

definition count_hits :: "mesh_object \<Rightarrow> vec \<Rightarrow> nat option" where
  "count_hits obj point_world =
     (let point_local = to_local obj point_world
      in hit_loop (obj_ray_cast obj) point_local
           (vadd point_local (smul direction_local (1 / 10000))) 100000000 0)"

definition point_in_mesh_local :: "mesh_object \<Rightarrow> vec \<Rightarrow> bool option" where
  "point_in_mesh_local obj point_world =
     map_option (\<lambda>hits. hits mod 2 = 1) (count_hits obj point_world)"

subsection \<open>Filling the grid\<close>

record config =
  DEPTH_SLICES :: nat
  SUB_STEPS :: nat
  PIXEL_JITTER_STRENGTH :: real
  MAX_EMPTY :: nat
  EPSILON :: real

definition default_config :: config where
  "default_config =
     \<lparr>DEPTH_SLICES = 150, SUB_STEPS = 2, PIXEL_JITTER_STRENGTH = 0.2, MAX_EMPTY = 200,
      EPSILON = 1 / 100000\<rparr>"

text \<open>
  \<open>get_tag\<close>, over the answers \<open>inside ob pt\<close> of the containment test for the objects
  of the three buckets.
\<close>

definition get_tag :: "('o \<Rightarrow> vec \<Rightarrow> bool) \<Rightarrow> (tag \<Rightarrow> 'o list) \<Rightarrow> vec \<Rightarrow> tag" where
  "get_tag inside objects_by_type pt =
     (if list_ex (\<lambda>ob. inside ob pt) (objects_by_type ''skeleton'') then ''skeleton''
      else if list_ex (\<lambda>ob. inside ob pt) (objects_by_type ''muscle'') then ''muscle''
      else if list_ex (\<lambda>ob. inside ob pt) (objects_by_type ''body'') then ''body''
      else ''none'')"

text \<open>
  \<open>random.random()\<close> reads a generator that every call advances. The generator is the
  sequence \<open>rnd\<close> of its values and the number \<open>draws\<close> of values already taken.
\<close>

record ray_state =
  found_geometry :: bool
  exited_geometry :: bool
  empty_count :: nat
  column :: "tag list"
  draws :: nat

text \<open>The sub-samples of one slice, and the tag of the slice by priority.\<close>

definition slice_tags ::
  "config \<Rightarrow> (vec \<Rightarrow> tag) \<Rightarrow> (nat \<Rightarrow> real) \<Rightarrow> vec \<Rightarrow> vec \<Rightarrow> real \<Rightarrow> real \<Rightarrow> nat \<Rightarrow> tag list" where
  "slice_tags cfg tag_at rnd cam_location ray_dir_world step base_dist drawn =
     map (\<lambda>s. let frac = rnd (drawn + s);
                  dist_sub = base_dist + frac * step;
                  pt_sample = vadd (vadd cam_location (smul ray_dir_world dist_sub))
                                (smul ray_dir_world (EPSILON cfg))
              in tag_at pt_sample)
       [0..<SUB_STEPS cfg]"

definition voxel_tag_of :: "tag list \<Rightarrow> tag" where
  "voxel_tag_of tags =
     (if ''skeleton'' \<in> set tags then ''skeleton''
      else if ''muscle'' \<in> set tags then ''muscle''
      else if ''body'' \<in> set tags then ''body''
      else ''none'')"

text \<open>The body of the loop over the depth slices, after the test of \<open>exited_geometry\<close>.\<close>

definition fill_slice ::
  "config \<Rightarrow> (vec \<Rightarrow> tag) \<Rightarrow> (nat \<Rightarrow> real) \<Rightarrow> vec \<Rightarrow> vec \<Rightarrow> real \<Rightarrow> nat \<Rightarrow> real \<Rightarrow> ray_state \<Rightarrow> ray_state" where
  "fill_slice cfg tag_at rnd cam_location ray_dir_world step k base_dist st =
     (let tags = slice_tags cfg tag_at rnd cam_location ray_dir_world step base_dist (draws st);
          voxel_tag = voxel_tag_of tags;
          st1 = st\<lparr>column := (column st)[k := voxel_tag], draws := draws st + SUB_STEPS cfg\<rparr>
      in if voxel_tag \<noteq> ''none'' then st1\<lparr>found_geometry := True, empty_count := 0\<rparr>
         else if found_geometry st then
           (if empty_count st + 1 > MAX_EMPTY cfg
            then st1\<lparr>empty_count := empty_count st + 1, exited_geometry := True\<rparr>
            else st1\<lparr>empty_count := empty_count st + 1\<rparr>)
         else st1)"

fun fill_slices ::
  "config \<Rightarrow> (vec \<Rightarrow> tag) \<Rightarrow> (nat \<Rightarrow> real) \<Rightarrow> vec \<Rightarrow> vec \<Rightarrow> real \<Rightarrow> (nat \<times> real) list \<Rightarrow> ray_state \<Rightarrow> ray_state" where
  "fill_slices cfg tag_at rnd cam_location ray_dir_world step [] st = st"
| "fill_slices cfg tag_at rnd cam_location ray_dir_world step ((k, base_dist) # rest) st =
     (if exited_geometry st then st
      else fill_slices cfg tag_at rnd cam_location ray_dir_world step rest
             (fill_slice cfg tag_at rnd cam_location ray_dir_world step k base_dist st))"

definition depth_values :: "config \<Rightarrow> real \<Rightarrow> real \<Rightarrow> real list" where
  "depth_values cfg min_dist step = map (\<lambda>k. min_dist + real k * step) [0..<DEPTH_SLICES cfg]"

text \<open>The slices \<open>a\<close> to \<open>b - 1\<close> of \<open>enumerate(depth_values)\<close>, each with its distance.\<close>

definition slices :: "real \<Rightarrow> real \<Rightarrow> nat \<Rightarrow> nat \<Rightarrow> (nat \<times> real) list" where
  "slices min_dist step a b = map (\<lambda>k. (k, min_dist + real k * step)) [a..<b]"

text \<open>One ray: its column starts as \<open>none\<close> everywhere, as the grid is created.\<close>

definition ray_start :: "config \<Rightarrow> nat \<Rightarrow> ray_state" where
  "ray_start cfg drawn =
     \<lparr>found_geometry = False, exited_geometry = False, empty_count = 0,
      column = replicate (DEPTH_SLICES cfg) ''none'', draws = drawn\<rparr>"

definition fill_ray ::
  "config \<Rightarrow> (vec \<Rightarrow> tag) \<Rightarrow> (nat \<Rightarrow> real) \<Rightarrow> vec \<Rightarrow> vec \<Rightarrow> real \<Rightarrow> real \<Rightarrow> nat \<Rightarrow> ray_state" where
  "fill_ray cfg tag_at rnd cam_location ray_dir_world min_dist step drawn =
     fill_slices cfg tag_at rnd cam_location ray_dir_world step
       (enumerate 0 (depth_values cfg min_dist step)) (ray_start cfg drawn)"

text \<open>The camera, and the ray of pixel \<open>(j, i)\<close> with its two jitter values.\<close>

record camera =
  cam_location :: vec
  cam_world_matrix :: "vec \<Rightarrow> vec"
  fov_y :: real
  shift_x :: real
  shift_y :: real

definition pixel_ray :: "camera \<Rightarrow> real \<Rightarrow> real \<Rightarrow> real \<Rightarrow> vec" where
  "pixel_ray cam aspect u_j v_j =
     (let screen_x = (u_j - 0.5) * 2 - shift_x cam * 2;
          screen_y = (v_j - 0.5) * 2 - shift_y cam * 2;
          px = screen_x * aspect * tan (fov_y cam * 0.5);
          py = screen_y * tan (fov_y cam * 0.5);
          pz = - 1;
          world_point = cam_world_matrix cam (px, py, pz)
      in normalized (vsub world_point (cam_location cam)))"

definition fill_pixel ::
  "config \<Rightarrow> (vec \<Rightarrow> tag) \<Rightarrow> (nat \<Rightarrow> real) \<Rightarrow> camera \<Rightarrow> nat \<Rightarrow> nat \<Rightarrow> real \<Rightarrow> real \<Rightarrow> nat \<Rightarrow> nat \<Rightarrow> nat \<Rightarrow> ray_state" where
  "fill_pixel cfg tag_at rnd cam width height min_dist step j i drawn =
     (let v = (real j + 0.5) / real height;
          u = (real i + 0.5) / real width;
          jx = (rnd drawn - 0.5) * PIXEL_JITTER_STRENGTH cfg / real width;
          jy = (rnd (drawn + 1) - 0.5) * PIXEL_JITTER_STRENGTH cfg / real height;
          ray_dir_world = pixel_ray cam (real width / real height) (u + jx) (v + jy)
      in fill_ray cfg tag_at rnd (cam_location cam) ray_dir_world min_dist step (drawn + 2))"

text \<open>The loops over the columns of a row and over the rows; the generator runs on.\<close>

fun fill_row ::
  "config \<Rightarrow> (vec \<Rightarrow> tag) \<Rightarrow> (nat \<Rightarrow> real) \<Rightarrow> camera \<Rightarrow> nat \<Rightarrow> nat \<Rightarrow> real \<Rightarrow> real \<Rightarrow> nat \<Rightarrow> nat list \<Rightarrow> nat \<Rightarrow> tag list list \<times> nat" where
  "fill_row cfg tag_at rnd cam width height min_dist step j [] drawn = ([], drawn)"
| "fill_row cfg tag_at rnd cam width height min_dist step j (i # rest) drawn =
     (let st = fill_pixel cfg tag_at rnd cam width height min_dist step j i drawn;
          r = fill_row cfg tag_at rnd cam width height min_dist step j rest (draws st)
      in (column st # fst r, snd r))"

fun fill_rows ::
  "config \<Rightarrow> (vec \<Rightarrow> tag) \<Rightarrow> (nat \<Rightarrow> real) \<Rightarrow> camera \<Rightarrow> nat \<Rightarrow> nat \<Rightarrow> real \<Rightarrow> real \<Rightarrow> nat list \<Rightarrow> nat \<Rightarrow> tag array3 \<times> nat" where
  "fill_rows cfg tag_at rnd cam width height min_dist step [] drawn = ([], drawn)"
| "fill_rows cfg tag_at rnd cam width height min_dist step (j # rest) drawn =
     (let row = fill_row cfg tag_at rnd cam width height min_dist step j [0..<width] drawn;
          r = fill_rows cfg tag_at rnd cam width height min_dist step rest (snd row)
      in (fst row # fst r, snd r))"

definition build_voxel_grid ::
  "config \<Rightarrow> (vec \<Rightarrow> tag) \<Rightarrow> (nat \<Rightarrow> real) \<Rightarrow> camera \<Rightarrow> nat \<Rightarrow> nat \<Rightarrow> real \<Rightarrow> real \<Rightarrow> tag array3" where
  "build_voxel_grid cfg tag_at rnd cam width height min_dist step =
     fst (fill_rows cfg tag_at rnd cam width height min_dist step [0..<height] 0)"

section \<open>Example inputs\<close>

text \<open>
  A slab between the planes \<open>x = 1\<close> and \<open>x = 3\<close> in its own coordinates: a ray along
  \<open>+x\<close> hits the next plane in front of its origin, if the segment reaches it.
\<close>

definition slab :: mesh_object where
  "slab = \<lparr>to_local = (\<lambda>p. p),
           obj_ray_cast = (\<lambda>origin e.
              if vx origin \<le> 1 \<and> 1 \<le> vx e then Some (1, snd origin)
              else if vx origin \<le> 3 \<and> 3 \<le> vx e then Some (3, snd origin)
              else None)\<rparr>"

text \<open>
  A scene with one box, object 0, between the planes \<open>x = 1\<close> and \<open>x = 2\<close>, for rays along
  \<open>+x\<close>: the normal of the near face points against the ray, that of the far face along it.
\<close>

definition box_scene :: "nat scene" where
  "box_scene origin dir distance =
     (if vx origin < 1 \<and> 1 \<le> vx origin + distance then
        Some \<lparr>hit_loc = (1, snd origin), hit_norm = (- 1, 0, 0), hit_obj = 0\<rparr>
      else if vx origin < 2 \<and> 2 \<le> vx origin + distance then
        Some \<lparr>hit_loc = (2, snd origin), hit_norm = (1, 0, 0), hit_obj = 0\<rparr>
      else None)"

definition box_trace :: "(nat event \<times> nat march_state) list" where
  "box_trace = march box_scene [0 \<mapsto> 1 / 2] (0, 0, 0) (1, 0, 0) 5 (march_start (1 / 10))"

text \<open>
  A ray along \<open>+x\<close> with bone in front of \<open>x = 1\<close> and again behind \<open>x = 2\<close>, sampled in
  three slices of length 1 with one sub-sample each, and an empty-run threshold of 0.
\<close>

definition gap_config :: config where
  "gap_config =
     \<lparr>DEPTH_SLICES = 3, SUB_STEPS = 1, PIXEL_JITTER_STRENGTH = 0.2, MAX_EMPTY = 0,
      EPSILON = 1 / 100000\<rparr>"

definition gap_tag :: "vec \<Rightarrow> tag" where
  "gap_tag pt = (if vx pt < 1 \<or> 2 < vx pt then ''skeleton'' else ''none'')"

definition gap_ray :: ray_state where
  "gap_ray = fill_ray gap_config gap_tag (\<lambda>n. 1 / 2) (0, 0, 0) (1, 0, 0) 0 1 0"

text \<open>
  A camera at the origin that looks along \<open>-z\<close>, one pixel, one slice of length 1 with
  one sub-sample, and one bone that fills the half space more than 1/2 away from
  the camera.
\<close>

definition lens_cam :: camera where
  "lens_cam = \<lparr>cam_location = (0, 0, 0), cam_world_matrix = (\<lambda>p. p), fov_y = 1,
               shift_x = 0, shift_y = 0\<rparr>"

definition one_slice :: config where
  "one_slice =
     \<lparr>DEPTH_SLICES = 1, SUB_STEPS = 1, PIXEL_JITTER_STRENGTH = 0.2, MAX_EMPTY = 200,
      EPSILON = 1 / 100000\<rparr>"

definition far_half :: "nat \<Rightarrow> vec \<Rightarrow> bool" where
  "far_half ob pt = (1 / 2 < dot pt (0, 0, - 1))"

definition one_bone :: "tag \<Rightarrow> nat list" where
  "one_bone t = (if t = ''skeleton'' then [0] else [])"


section \<open>Properties\<close>

subsection \<open>Interior eroder\<close>

lemmas erode_defs =
  erode_mask_def erode_step_def set_slice3_def set_slice_def slice3_def py_slice_def
  slice_lo_def slice_hi_def slice_bound_def zeros_like_def and3_def inner_def lower_def upper_def

lemmas hollow_defs = hollow_mask_def full_plane_def hollow_plane_def

text \<open>
  C1. The claim: eroding \<open>N + 1\<close> times gives a subset of eroding \<open>N\<close> times, and the
  result is a subset of the input. The loop body takes the conjunction of the six
  neighbours only, so on the block with a cavity the cavity cell, false in the input
  (which is the erosion with \<open>N = 0\<close>), is true after one iteration.
\<close>

theorem erode_mask_fills_cavity:
  "erode_mask hollow_mask 0 ! 1 ! 1 ! 1 = False \<and> erode_mask hollow_mask 1 ! 1 ! 1 ! 1 = True"
  by (simp add: erode_defs hollow_defs)

text \<open>
  C2. The claim: after one iteration a cell is true only if the cell itself and its six
  neighbours were true, and the border cells are false. On the block with a cavity one
  iteration gives the mask whose only true cell is the cavity cell: all border cells are
  false, but the cell in the middle is true though it was false.
\<close>

theorem erode_step_ignores_centre:
  "hollow_mask ! 1 ! 1 ! 1 = False \<and>
   erode_step hollow_mask =
     [[[False, False, False], [False, False, False], [False, False, False]],
      [[False, False, False], [False, True, False], [False, False, False]],
      [[False, False, False], [False, False, False], [False, False, False]]]"
  by (simp add: erode_defs hollow_defs)

text \<open>
  C3. The claim: every cell whose tag changes was \<open>skeleton\<close> and becomes \<open>marrow\<close>. In
  the grid of the block with a cavity the cavity cell is \<open>none\<close> and becomes \<open>marrow\<close>.
\<close>

theorem cavity_becomes_marrow:
  "hollow_grid ! 1 ! 1 ! 1 = ''none'' \<and> output_grid hollow_grid ! 1 ! 1 ! 1 = ''marrow''"
  by (simp add: erode_defs hollow_defs hollow_grid_def output_grid_def mask_assign_def
      interior_mask_def skeleton_mask_def SHELL_THICKNESS_def)

subsection \<open>Attenuation law\<close>

lemma intensity_limit: "(intensity \<longlongrightarrow> 1) at_top"
proof -
  have "((\<lambda>x::real. exp (- x)) \<longlongrightarrow> 0) at_top"
    by (rule filterlim_compose[OF exp_at_bot filterlim_uminus_at_bot_at_top])
  then have "((\<lambda>x::real. 1 - exp (- x)) \<longlongrightarrow> 1 - 0) at_top"
    by (intro tendsto_diff tendsto_const)
  then show ?thesis by (simp add: intensity_def[abs_def])
qed

text \<open>
  C4. Both integrators turn the accumulated optical depth into the pixel value
  \<open>intensity\<close>. On the depths from 0 on, \<open>intensity\<close> is strictly increasing, is 0 at 0,
  stays in \<open>[0, 1)\<close>, and tends to 1 as the depth grows without bound.
\<close>

theorem attenuation_law:
  "intensity 0 = 0
   \<and> (\<forall>a b. 0 \<le> a \<and> a < b \<longrightarrow> intensity a < intensity b)
   \<and> (\<forall>d. 0 \<le> d \<longrightarrow> 0 \<le> intensity d \<and> intensity d < 1)
   \<and> (intensity \<longlongrightarrow> 1) at_top
   \<and> (\<forall>dm g step d j i v. grid_pixel dm g step d j i = Inr v \<longrightarrow>
         (\<exists>s. raw_sum dm g d j i = Inr s \<and> v = intensity (s * step)))
   \<and> (\<forall>rc od cam dir cs ce. ray_projection rc od cam dir cs ce =
         intensity (total_density (march_final (march_start cs)
           (march rc od cam dir ce (march_start cs)))))"
proof (intro conjI allI impI)
  show "(intensity \<longlongrightarrow> 1) at_top" by (rule intensity_limit)
qed (auto simp: intensity_def grid_pixel_def ray_projection_def split: sum.splits)

theorem attenuation_law_witness:
  "intensity 0 = 0 \<and> intensity 1 < intensity 2 \<and> 0 \<le> intensity 1 \<and> intensity 1 < 1"
proof -
  have m: "\<forall>a b. 0 \<le> a \<and> a < b \<longrightarrow> intensity a < intensity b"
    and r: "\<forall>d. 0 \<le> d \<longrightarrow> 0 \<le> intensity d \<and> intensity d < 1"
    and z: "intensity 0 = 0"
    using attenuation_law by blast+
  have "intensity 1 < intensity 2" using m by simp
  moreover have "0 \<le> intensity 1 \<and> intensity 1 < 1" using r by simp
  ultimately show ?thesis using z by simp
qed

subsection \<open>Discrete grid integrator\<close>

lemma shape3_nth:
  "shape3 a nx ny nz \<longleftrightarrow> length a = nx \<and> (\<forall>j<nx. length (a ! j) = ny \<and> (\<forall>i<ny. length (a ! j ! i) = nz))"
  by (auto simp: shape3_def list_all_length)

lemma voxel_density_in_range:
  "shape3 g h w d \<Longrightarrow> j < h \<Longrightarrow> i < w \<Longrightarrow> k < d \<Longrightarrow> voxel_density dm g j i k = lookup dm (g ! j ! i ! k)"
  by (simp add: shape3_nth voxel_density_def index_def)

lemma raw_sum_loop_ok:
  "(\<exists>s. raw_sum_loop dm g j i ks acc = Inr s) \<longleftrightarrow> (\<forall>k\<in>set ks. \<exists>d. voxel_density dm g j i k = Inr d)"
  by (induction ks arbitrary: acc) (auto split: sum.splits)

lemma raw_sum_loop_err:
  "raw_sum_loop dm g j i ks acc = Inl e \<Longrightarrow> \<exists>k\<in>set ks. voxel_density dm g j i k = Inl e"
  by (induction ks arbitrary: acc) (auto split: sum.splits)

lemma traverse_ok: "(\<exists>ys. traverse f xs = Inr ys) \<longleftrightarrow> (\<forall>x\<in>set xs. \<exists>y. f x = Inr y)"
  by (induction xs) (auto split: sum.splits)

lemma traverse_err: "traverse f xs = Inl e \<Longrightarrow> \<exists>x\<in>set xs. f x = Inl e"
  by (induction xs) (auto split: sum.splits)


lemma grid_pixel_ok:
  assumes "shape3 g h w d" "j < h" "i < w"
  shows "(\<exists>v. grid_pixel dm g step d j i = Inr v) \<longleftrightarrow> (\<forall>k<d. g ! j ! i ! k \<in> dom dm)"
proof -
  have "(\<exists>s. raw_sum dm g d j i = Inr s) \<longleftrightarrow> (\<forall>k<d. \<exists>x. lookup dm (g ! j ! i ! k) = Inr x)"
    using assms by (auto simp: raw_sum_def raw_sum_loop_ok voxel_density_in_range)
  also have "\<dots> \<longleftrightarrow> (\<forall>k<d. g ! j ! i ! k \<in> dom dm)"
    by (auto simp: lookup_def dom_def split: option.splits)
  finally show ?thesis
    by (auto simp: grid_pixel_def split: sum.splits)
qed

lemma grid_pixel_err:
  assumes "shape3 g h w d" "j < h" "i < w" "grid_pixel dm g step d j i = Inl e"
  shows "e = KeyError"
proof -
  from assms(4) have "raw_sum dm g d j i = Inl e"
    by (auto simp: grid_pixel_def split: sum.splits)
  then obtain k where "k < d" "voxel_density dm g j i k = Inl e"
    using raw_sum_loop_err[of dm g j i "[0..<d]" 0 e] by (auto simp: raw_sum_def)
  then have "lookup dm (g ! j ! i ! k) = Inl e"
    using assms voxel_density_in_range by metis
  then show ?thesis
    by (auto simp: lookup_def split: option.splits)
qed

lemma grid_projection_ok:
  assumes "shape3 g h w d"
  shows "(\<exists>p. grid_projection dm g w h step d = Inr p) \<longleftrightarrow> (\<forall>j<h. \<forall>i<w. \<forall>k<d. g ! j ! i ! k \<in> dom dm)"
proof -
  have "(\<exists>p. grid_projection dm g w h step d = Inr p) \<longleftrightarrow>
        (\<forall>j<h. \<forall>i<w. \<exists>v. grid_pixel dm g step d j i = Inr v)"
    by (simp add: grid_projection_def traverse_ok Ball_def)
  also have "\<dots> \<longleftrightarrow> (\<forall>j<h. \<forall>i<w. \<forall>k<d. g ! j ! i ! k \<in> dom dm)"
    by (simp add: grid_pixel_ok[OF assms])
  finally show ?thesis .
qed

lemma grid_projection_err:
  assumes "shape3 g h w d" "grid_projection dm g w h step d = Inl e"
  shows "e = KeyError"
proof -
  obtain j where j: "j < h" "traverse (grid_pixel dm g step d j) [0..<w] = Inl e"
    using traverse_err[OF assms(2)[unfolded grid_projection_def]] by auto
  obtain i where "i < w" "grid_pixel dm g step d j i = Inl e"
    using traverse_err[OF j(2)] by auto
  with assms(1) j(1) show ?thesis using grid_pixel_err by blast
qed


subsection \<open>Unknown material tags\<close>

text \<open>
  C8. With a grid of the shape the metadata gives, the discrete integrator ends in an
  exception, before any image is made, exactly when some cell of the grid holds a tag
  outside the domain of the density map, and the exception is the \<open>KeyError\<close> of the
  lookup. The continuous integrator adds 0 for an object with no density assigned: its
  lookup is a total function.
\<close>

theorem unknown_tag_is_fatal:
  assumes "shape3 voxel_grid height width depth_slices"
  shows "((\<exists>e. grid_image density_mapping voxel_grid width height step depth_slices = Inl e) \<longleftrightarrow>
          (\<exists>j<height. \<exists>i<width. \<exists>k<depth_slices. voxel_grid ! j ! i ! k \<notin> dom density_mapping))
       \<and> (\<forall>e. grid_image density_mapping voxel_grid width height step depth_slices = Inl e \<longrightarrow> e = KeyError)
       \<and> (ob \<notin> dom object_to_density \<longrightarrow>
            stack_density object_to_density (stack @ [ob]) = stack_density object_to_density stack)"
proof -
  let ?img = "grid_image density_mapping voxel_grid width height step depth_slices"
  let ?prj = "grid_projection density_mapping voxel_grid width height step depth_slices"
  have a: "(\<exists>e. ?img = Inl e) \<longleftrightarrow> \<not> (\<exists>p. ?prj = Inr p)"
    by (cases ?prj) (auto simp: grid_image_def)
  have b: "?img = Inl e \<Longrightarrow> ?prj = Inl e" for e
    by (cases ?prj) (auto simp: grid_image_def)
  show ?thesis
    using a b grid_projection_ok[OF assms] grid_projection_err[OF assms]
    by (auto simp: stack_density_def get_default_def dom_def)
qed



theorem unknown_tag_is_fatal_witness:
  "shape3 [[[''none'', ''bone'']]] 1 1 2 \<and>
   grid_image DENSITY_MAPPING [[[''none'', ''bone'']]] 1 1 1 2 = Inl KeyError \<and>
   stack_density [1 \<mapsto> 1 / 2] ([1] @ [7 :: nat]) = stack_density [1 \<mapsto> 1 / 2] [1 :: nat]"
proof -
  have s: "shape3 [[[''none'', ''bone'']]] 1 1 2"
    by (simp add: shape3_def)
  note t = unknown_tag_is_fatal[OF s, of DENSITY_MAPPING 1 "7 :: nat" "[1 \<mapsto> 1 / 2]" "[1]"]
  have "[[[''none'', ''bone'']]] ! 0 ! 0 ! 1 \<notin> dom DENSITY_MAPPING"
    by (simp add: DENSITY_MAPPING_def)
  then have "\<exists>j<1::nat. \<exists>i<1::nat. \<exists>k<2::nat. [[[''none'', ''bone'']]] ! j ! i ! k \<notin> dom DENSITY_MAPPING"
    by (intro exI[of _ 0] exI[of _ 1] conjI) simp_all
  then obtain e where e: "grid_image DENSITY_MAPPING [[[''none'', ''bone'']]] 1 1 1 2 = Inl e"
    using t by blast
  then have "e = KeyError" using t by blast
  then show ?thesis using s e t by simp
qed

subsection \<open>Layer compositing\<close>











lemma composite_empty: "composite_srgb [] = Inl TypeError"
  by (simp add: composite_srgb_def composite_linear_def)

subsection \<open>Point containment\<close>

lemma vabs_le_vlength: "\<bar>vx (vsub a b)\<bar> \<le> vlength (vsub a b)"
proof (cases a; cases b)
  fix ax ay az bx "by" bz
  assume a: "a = (ax, ay, az)" and b: "b = (bx, by, bz)"
  have "\<bar>ax - bx\<bar>\<^sup>2 \<le> (ax - bx) * (ax - bx) + (ay - by) * (ay - by) + (az - bz) * (az - bz)"
    by (simp add: power2_eq_square)
  then have "\<bar>ax - bx\<bar> \<le> sqrt ((ax - bx) * (ax - bx) + (ay - by) * (ay - by) + (az - bz) * (az - bz))"
    by (rule real_le_rsqrt)
  then show ?thesis by (simp add: a b)
qed


lemma vx_vsub: "vx (vsub a b) = vx a - vx b"
  by (cases a; cases b) simp

lemma vx_advance: "vx (vadd loc (smul direction_local c)) = vx loc + c"
  by (cases loc) (simp add: direction_local_def)

lemma offset_le_vlength:
  assumes "vx pl + offset \<le> vx loc"
  shows "offset \<le> vlength (vsub loc pl)"
proof -
  have "offset \<le> \<bar>vx (vsub loc pl)\<bar>" using assms by (simp add: vx_vsub)
  then show ?thesis using vabs_le_vlength[of loc pl] by linarith
qed

lemma budget_measure:
  assumes "m1 \<le> m - offset" "0 < m1"
  shows "nat \<lceil>m1 / offset\<rceil> < nat \<lceil>m / offset\<rceil>"
proof -
  have e: "0 < offset" by (simp add: offset_def)
  have "m1 / offset \<le> (m - offset) / offset"
    using assms(1) e by (intro divide_right_mono) auto
  also have "\<dots> = m / offset - 1"
    using e by (simp add: diff_divide_distrib)
  finally have "\<lceil>m1 / offset\<rceil> \<le> \<lceil>m / offset\<rceil> - 1"
    by (metis ceiling_diff_one ceiling_mono)
  moreover have "0 < \<lceil>m1 / offset\<rceil>" using assms(2) e by simp
  ultimately show ?thesis by linarith
qed

lemma hit_loop_unfold:
  assumes "rc origin (vadd origin (smul direction_local max_dist)) = Some loc"
  shows "hit_loop rc pl origin max_dist hits =
           (if max_dist - vlength (vsub loc pl) \<le> 0 then Some (hits + 1)
            else hit_loop rc pl (vadd loc (smul direction_local offset))
                   (max_dist - vlength (vsub loc pl)) (hits + 1))"
  using assms by (subst hit_loop.simps) (simp add: Let_def)

lemma hit_loop_miss:
  assumes "rc origin (vadd origin (smul direction_local max_dist)) = None"
  shows "hit_loop rc pl origin max_dist hits = Some hits"
  using assms by (subst hit_loop.simps) (simp add: Let_def)

lemma hit_loop_returns:
  assumes ahead: "\<And>origin e loc. rc origin e = Some loc \<Longrightarrow> vx origin \<le> vx loc"
    and inv: "vx pl + offset \<le> vx origin"
  shows "\<exists>h. hit_loop rc pl origin max_dist hits = Some h"
  using inv
proof (induction "nat \<lceil>max_dist / offset\<rceil>" arbitrary: origin max_dist hits rule: less_induct)
  case less
  show ?case
  proof (cases "rc origin (vadd origin (smul direction_local max_dist))")
    case None
    then show ?thesis by (simp add: hit_loop_miss)
  next
    case (Some loc)
    let ?m1 = "max_dist - vlength (vsub loc pl)"
    let ?o1 = "vadd loc (smul direction_local offset)"
    show ?thesis
    proof (cases "?m1 \<le> 0")
      case True
      then show ?thesis by (simp add: hit_loop_unfold[where rc=rc and origin=origin and max_dist=max_dist, OF Some])
    next
      case False
      have "vx origin \<le> vx loc" using ahead Some by blast
      then have far: "vx pl + offset \<le> vx loc" using less.prems by simp
      have m1: "?m1 \<le> max_dist - offset"
        using offset_le_vlength[OF far] by simp
      have meas: "nat \<lceil>?m1 / offset\<rceil> < nat \<lceil>max_dist / offset\<rceil>"
        using budget_measure[OF m1] False by simp
      have inv1: "vx pl + offset \<le> vx ?o1"
        using far by (simp add: vx_advance offset_def)
      obtain h where "hit_loop rc pl ?o1 ?m1 (hits + 1) = Some h"
        using less.hyps[OF meas inv1] by blast
      then show ?thesis using False by (simp add: hit_loop_unfold[where rc=rc and origin=origin and max_dist=max_dist, OF Some])
    qed
  qed
qed


text \<open>
  C9. If the mesh never reports a hit behind the origin of the ray along \<open>+x\<close>, the loop
  of the containment test returns: it yields a count, and the test answers that the
  point is inside exactly when the count is odd. In every pass that finds a hit from an
  origin beyond the point, the next origin lies beyond the hit and the distance budget
  is strictly smaller; the loop leaves when there is no hit or the budget is used up.
\<close>

theorem parity_test_terminates:
  assumes "\<forall>origin e loc. obj_ray_cast obj origin e = Some loc \<longrightarrow> vx origin \<le> vx loc"
  shows "(\<exists>hits. count_hits obj point_world = Some hits \<and>
                 point_in_mesh_local obj point_world = Some (odd hits))
       \<and> (\<forall>origin max_dist hits loc.
            vx (to_local obj point_world) < vx origin \<and>
            obj_ray_cast obj origin (vadd origin (smul direction_local max_dist)) = Some loc \<longrightarrow>
            vx loc < vx (vadd loc (smul direction_local offset)) \<and>
            max_dist - vlength (vsub loc (to_local obj point_world)) < max_dist \<and>
            hit_loop (obj_ray_cast obj) (to_local obj point_world) origin max_dist hits =
              (if max_dist - vlength (vsub loc (to_local obj point_world)) \<le> 0 then Some (hits + 1)
               else hit_loop (obj_ray_cast obj) (to_local obj point_world)
                      (vadd loc (smul direction_local offset))
                      (max_dist - vlength (vsub loc (to_local obj point_world))) (hits + 1)))"
proof (intro conjI allI impI)
  let ?pl = "to_local obj point_world"
  have "vx ?pl + offset \<le> vx (vadd ?pl (smul direction_local (1 / 10000)))"
    by (simp add: vx_advance offset_def)
  then obtain h where "hit_loop (obj_ray_cast obj) ?pl (vadd ?pl (smul direction_local (1 / 10000)))
                         100000000 0 = Some h"
    using hit_loop_returns[of "obj_ray_cast obj" ?pl] assms by blast
  then show "\<exists>hits. count_hits obj point_world = Some hits \<and>
                 point_in_mesh_local obj point_world = Some (odd hits)"
    by (simp add: count_hits_def point_in_mesh_local_def Let_def odd_iff_mod_2_eq_one)
next
  fix origin max_dist hits loc
  let ?pl = "to_local obj point_world"
  assume a: "vx ?pl < vx origin \<and>
            obj_ray_cast obj origin (vadd origin (smul direction_local max_dist)) = Some loc"
  show "vx loc < vx (vadd loc (smul direction_local offset))"
    by (simp add: vx_advance offset_def)
  have "vx ?pl < vx loc" using a assms by fastforce
  then have "0 < \<bar>vx (vsub loc ?pl)\<bar>" by (simp add: vx_vsub)
  then have "0 < vlength (vsub loc ?pl)" using vabs_le_vlength[of loc ?pl] by linarith
  then show "max_dist - vlength (vsub loc ?pl) < max_dist" by simp
  show "hit_loop (obj_ray_cast obj) ?pl origin max_dist hits =
          (if max_dist - vlength (vsub loc ?pl) \<le> 0 then Some (hits + 1)
           else hit_loop (obj_ray_cast obj) ?pl (vadd loc (smul direction_local offset))
                  (max_dist - vlength (vsub loc ?pl)) (hits + 1))"
    using a by (simp add: hit_loop_unfold)
qed

lemma vlength_x: "vlength (x, 0, 0) = \<bar>x\<bar>"
  by simp

theorem parity_test_witness:
  "count_hits slab (2, 0, 0) = Some 1 \<and> point_in_mesh_local slab (2, 0, 0) = Some True"
proof -
  have h: "\<forall>origin e loc. obj_ray_cast slab origin e = Some loc \<longrightarrow> vx origin \<le> vx loc"
    by (auto simp: slab_def split: if_splits)
  obtain hits where hits: "count_hits slab (2, 0, 0) = Some hits"
      "point_in_mesh_local slab (2, 0, 0) = Some (odd hits)"
    using parity_test_terminates[OF h, of "(2, 0, 0)"] by blast
  have 1: "hit_loop (obj_ray_cast slab) (2, 0, 0) (2 + 1 / 10000, 0, 0) 100000000 0
             = hit_loop (obj_ray_cast slab) (2, 0, 0) (3 + 1 / 10000, 0, 0) (100000000 - 1) 1"
    by (subst hit_loop.simps)
      (simp add: slab_def direction_local_def offset_def Let_def vlength_x del: vlength.simps)
  have 2: "hit_loop (obj_ray_cast slab) (2, 0, 0) (3 + 1 / 10000, 0, 0) (100000000 - 1) 1 = Some 1"
    by (subst hit_loop.simps) (simp add: slab_def direction_local_def offset_def Let_def)
  have c: "count_hits slab (2, 0, 0) = Some 1"
    using 1 2 by (simp add: count_hits_def slab_def direction_local_def Let_def)
  then have "hits = 1" using hits(1) by simp
  then show ?thesis using hits(2) c by simp
qed

subsection \<open>Early exit of the voxel grid builder\<close>

lemma fill_slices_exited:
  "exited_geometry st \<Longrightarrow> fill_slices cfg tag_at rnd cam ray step ks st = st"
  by (cases ks) auto

lemma fill_slices_append:
  "fill_slices cfg tag_at rnd cam ray step (xs @ ys) st
     = fill_slices cfg tag_at rnd cam ray step ys (fill_slices cfg tag_at rnd cam ray step xs st)"
  by (induction xs arbitrary: st) (auto simp: fill_slices_exited)

lemma fill_slice_column_other:
  "m \<noteq> k \<Longrightarrow> column (fill_slice cfg tag_at rnd cam ray step k b st) ! m = column st ! m"
  by (simp add: fill_slice_def Let_def)

lemma fill_slice_length:
  "length (column (fill_slice cfg tag_at rnd cam ray step k b st)) = length (column st)"
  by (simp add: fill_slice_def Let_def)

lemma fill_slices_column_other:
  "m \<notin> fst ` set ks \<Longrightarrow> column (fill_slices cfg tag_at rnd cam ray step ks st) ! m = column st ! m"
  by (induction ks arbitrary: st) (auto simp: fill_slice_column_other)

lemma fill_slices_length:
  "length (column (fill_slices cfg tag_at rnd cam ray step ks st)) = length (column st)"
  by (induction ks arbitrary: st) (auto simp: fill_slice_length)


lemma upt_split: "a \<le> b \<Longrightarrow> b \<le> c \<Longrightarrow> [a..<c] = [a..<b] @ [b..<c]"
  by (metis le_Suc_ex upt_add_eq_append)

lemma slices_append:
  "a \<le> b \<Longrightarrow> b \<le> c \<Longrightarrow> slices md step a c = slices md step a b @ slices md step b c"
  by (simp add: slices_def upt_split[of a b c])

lemma slices_snoc:
  "a \<le> b \<Longrightarrow> slices md step a (Suc b) = slices md step a b @ [(b, md + real b * step)]"
  by (simp add: slices_def)

lemma slices_empty: "slices md step a a = []"
  by (simp add: slices_def)

lemma fst_slices: "fst ` set (slices md step a b) = {a..<b}"
  by (auto simp: slices_def image_iff)

lemma enumerate_depth_values:
  "enumerate 0 (depth_values cfg md step) = slices md step 0 (DEPTH_SLICES cfg)"
  by (simp add: enumerate_eq_zip depth_values_def slices_def zip_map2 zip_same_conv_map)

lemma fill_slices_snoc:
  "fill_slices cfg tag_at rnd cam ray step (ks @ [(k, b)]) st =
     (let s = fill_slices cfg tag_at rnd cam ray step ks st
      in if exited_geometry s then s else fill_slice cfg tag_at rnd cam ray step k b s)"
  by (simp add: fill_slices_append Let_def)

lemma fill_slices_draws:
  "\<not> exited_geometry (fill_slices cfg tag_at rnd cam ray step ks st) \<Longrightarrow>
   draws (fill_slices cfg tag_at rnd cam ray step ks st) = draws st + SUB_STEPS cfg * length ks"
proof (induction ks arbitrary: st)
  case Nil
  then show ?case by simp
next
  case (Cons kb ks)
  obtain k b where kb: "kb = (k, b)" by (cases kb)
  show ?case
  proof (cases "exited_geometry st")
    case True
    then show ?thesis using Cons.prems kb by simp
  next
    case False
    then have "draws (fill_slices cfg tag_at rnd cam ray step (kb # ks) st)
        = draws (fill_slice cfg tag_at rnd cam ray step k b st) + SUB_STEPS cfg * length ks"
      using Cons kb by simp
    then show ?thesis by (simp add: fill_slice_def Let_def)
  qed
qed

lemma fill_slice_geometry:
  assumes "k < length (column st)"
    and "column (fill_slice cfg tag_at rnd cam ray step k b st) ! k \<noteq> ''none''"
  shows "found_geometry (fill_slice cfg tag_at rnd cam ray step k b st)
       \<and> empty_count (fill_slice cfg tag_at rnd cam ray step k b st) = 0
       \<and> exited_geometry (fill_slice cfg tag_at rnd cam ray step k b st) = exited_geometry st
       \<and> draws (fill_slice cfg tag_at rnd cam ray step k b st) = draws st + SUB_STEPS cfg"
  using assms by (auto simp: fill_slice_def Let_def split: if_splits)

lemma fill_slice_empty:
  assumes "k < length (column st)" and "found_geometry st"
    and "column (fill_slice cfg tag_at rnd cam ray step k b st) ! k = ''none''"
  shows "found_geometry (fill_slice cfg tag_at rnd cam ray step k b st)
       \<and> empty_count (fill_slice cfg tag_at rnd cam ray step k b st) = empty_count st + 1
       \<and> exited_geometry (fill_slice cfg tag_at rnd cam ray step k b st)
           = (exited_geometry st \<or> MAX_EMPTY cfg < empty_count st + 1)
       \<and> draws (fill_slice cfg tag_at rnd cam ray step k b st) = draws st + SUB_STEPS cfg"
  using assms by (auto simp: fill_slice_def Let_def split: if_splits)

lemma column_after_later_slices:
  assumes "k < b"
  shows "column (fill_slices cfg tag_at rnd cam ray step (slices md step b c) st) ! k = column st ! k"
  using assms by (intro fill_slices_column_other) (simp add: fst_slices)

lemma reach_geometry:
  assumes g: "g < D"
    and len: "length (column st0) = D"
    and init: "column st0 ! g = ''none''"
    and geo: "column (fill_slices cfg tag_at rnd cam ray step (slices md step 0 D) st0) ! g \<noteq> ''none''"
  shows "found_geometry (fill_slices cfg tag_at rnd cam ray step (slices md step 0 (Suc g)) st0)
       \<and> \<not> exited_geometry (fill_slices cfg tag_at rnd cam ray step (slices md step 0 (Suc g)) st0)
       \<and> empty_count (fill_slices cfg tag_at rnd cam ray step (slices md step 0 (Suc g)) st0) = 0
       \<and> draws (fill_slices cfg tag_at rnd cam ray step (slices md step 0 (Suc g)) st0)
           = draws st0 + SUB_STEPS cfg * Suc g"
proof -
  let ?F = "fill_slices cfg tag_at rnd cam ray step"
  let ?f = "fill_slice cfg tag_at rnd cam ray step"
  let ?sg = "?F (slices md step 0 g) st0"
  let ?b = "md + real g * step"
  have split: "slices md step 0 D = slices md step 0 (Suc g) @ slices md step (Suc g) D"
    using g by (intro slices_append) simp_all
  have final: "?F (slices md step 0 D) st0 = ?F (slices md step (Suc g) D) (?F (slices md step 0 (Suc g)) st0)"
    by (simp add: split fill_slices_append)
  have untouched: "column ?sg ! g = ''none''"
    using init by (simp add: fill_slices_column_other fst_slices)
  have nex: "\<not> exited_geometry ?sg"
  proof
    assume ex: "exited_geometry ?sg"
    then have "?F (slices md step 0 (Suc g)) st0 = ?sg"
      by (simp add: slices_snoc fill_slices_snoc)
    then have "?F (slices md step 0 D) st0 = ?sg"
      using final ex by (simp add: fill_slices_exited)
    then show False using geo untouched by simp
  qed
  then have s: "?F (slices md step 0 (Suc g)) st0 = ?f g ?b ?sg"
    by (simp add: slices_snoc fill_slices_snoc)
  have dg: "draws ?sg = draws st0 + SUB_STEPS cfg * g"
    using fill_slices_draws[OF nex] by (simp add: slices_def)
  have lg: "g < length (column ?sg)"
    using g len by (simp add: fill_slices_length)
  have "column (?F (slices md step 0 D) st0) ! g = column (?f g ?b ?sg) ! g"
    unfolding final s by (rule column_after_later_slices) simp
  then have "column (?f g ?b ?sg) ! g \<noteq> ''none''" using geo by simp
  from fill_slice_geometry[OF lg this] nex dg show ?thesis
    unfolding s by simp
qed

lemma empty_run:
  assumes s: "found_geometry s" "\<not> exited_geometry s" "empty_count s = 0" "length (column s) = D"
    and room: "a + MAX_EMPTY cfg < D"
    and none: "\<forall>m. a \<le> m \<and> m \<le> a + MAX_EMPTY cfg \<longrightarrow>
                 column (fill_slices cfg tag_at rnd cam ray step (slices md step a D) s) ! m = ''none''"
    and n: "n \<le> MAX_EMPTY cfg + 1"
  shows "found_geometry (fill_slices cfg tag_at rnd cam ray step (slices md step a (a + n)) s)
       \<and> empty_count (fill_slices cfg tag_at rnd cam ray step (slices md step a (a + n)) s) = n
       \<and> exited_geometry (fill_slices cfg tag_at rnd cam ray step (slices md step a (a + n)) s)
           = (MAX_EMPTY cfg < n)
       \<and> draws (fill_slices cfg tag_at rnd cam ray step (slices md step a (a + n)) s)
           = draws s + SUB_STEPS cfg * n"
  using n
proof (induction n)
  case 0
  then show ?case using s by (simp add: slices_empty)
next
  case (Suc n)
  let ?F = "fill_slices cfg tag_at rnd cam ray step"
  let ?f = "fill_slice cfg tag_at rnd cam ray step"
  let ?t = "?F (slices md step a (a + n)) s"
  let ?b = "md + real (a + n) * step"
  have nle: "n \<le> MAX_EMPTY cfg" using Suc.prems by simp
  have ih: "found_geometry ?t" "empty_count ?t = n" "\<not> exited_geometry ?t"
    "draws ?t = draws s + SUB_STEPS cfg * n"
    using Suc.IH nle by simp_all
  have t1: "?F (slices md step a (a + Suc n)) s = ?f (a + n) ?b ?t"
    using ih(3) by (simp add: slices_snoc fill_slices_snoc)
  have split: "slices md step a D = slices md step a (a + Suc n) @ slices md step (a + Suc n) D"
    using nle room by (intro slices_append) simp_all
  have final: "?F (slices md step a D) s = ?F (slices md step (a + Suc n) D) (?f (a + n) ?b ?t)"
    by (simp add: split fill_slices_append t1 del: add_Suc_right)
  have lt: "a + n < length (column ?t)"
    using nle room s(4) by (simp add: fill_slices_length)
  have "column (?F (slices md step a D) s) ! (a + n) = column (?f (a + n) ?b ?t) ! (a + n)"
    unfolding final by (rule column_after_later_slices) simp
  moreover have "column (?F (slices md step a D) s) ! (a + n) = ''none''"
    using none nle by simp
  ultimately have "column (?f (a + n) ?b ?t) ! (a + n) = ''none''" by simp
  from fill_slice_empty[OF lt ih(1) this] ih show ?case
    unfolding t1 by auto
qed


text \<open>
  C7. If on one ray the slice \<open>g\<close> holds geometry and the \<open>MAX_EMPTY + 1\<close> slices after it
  are \<open>none\<close>, so that the count of empty slices since the geometry exceeds \<open>MAX_EMPTY\<close>
  while slices remain, then the loop has left early: the random generator has been read
  for the slices up to \<open>g + MAX_EMPTY + 1\<close> only, \<open>SUB_STEPS\<close> times each, and every later
  slice of the column is \<open>none\<close>.
\<close>

theorem early_exit:
  assumes room: "g + MAX_EMPTY cfg + 1 < DEPTH_SLICES cfg"
    and geo: "column (fill_ray cfg tag_at rnd cam ray md step drawn) ! g \<noteq> ''none''"
    and gap: "\<forall>m. g < m \<and> m \<le> g + MAX_EMPTY cfg + 1 \<longrightarrow>
                column (fill_ray cfg tag_at rnd cam ray md step drawn) ! m = ''none''"
  shows "exited_geometry (fill_ray cfg tag_at rnd cam ray md step drawn)
       \<and> draws (fill_ray cfg tag_at rnd cam ray md step drawn)
           = drawn + SUB_STEPS cfg * (g + MAX_EMPTY cfg + 2)
       \<and> (\<forall>k. g + MAX_EMPTY cfg + 1 < k \<and> k < DEPTH_SLICES cfg \<longrightarrow>
             column (fill_ray cfg tag_at rnd cam ray md step drawn) ! k = ''none'')"
proof -
  let ?F = "fill_slices cfg tag_at rnd cam ray step"
  let ?D = "DEPTH_SLICES cfg"
  let ?E = "MAX_EMPTY cfg"
  let ?st0 = "ray_start cfg drawn"
  let ?final = "fill_ray cfg tag_at rnd cam ray md step drawn"
  let ?s = "?F (slices md step 0 (Suc g)) ?st0"
  let ?t = "?F (slices md step (Suc g) (Suc g + (?E + 1))) ?s"
  have fin: "?final = ?F (slices md step 0 ?D) ?st0"
    by (simp add: fill_ray_def enumerate_depth_values)
  have len0: "length (column ?st0) = ?D" by (simp add: ray_start_def)
  have init: "column ?st0 ! g = ''none''" using room by (simp add: ray_start_def)
  have s: "found_geometry ?s" "\<not> exited_geometry ?s" "empty_count ?s = 0"
    "draws ?s = drawn + SUB_STEPS cfg * Suc g"
    using reach_geometry[OF _ len0 init geo[unfolded fin]] room by (simp_all add: ray_start_def)
  have lens: "length (column ?s) = ?D" by (simp add: fill_slices_length len0)
  have split1: "slices md step 0 ?D = slices md step 0 (Suc g) @ slices md step (Suc g) ?D"
    using room by (intro slices_append) simp_all
  have fin1: "?final = ?F (slices md step (Suc g) ?D) ?s"
    by (simp add: fin split1 fill_slices_append)
  have none: "\<forall>m. Suc g \<le> m \<and> m \<le> Suc g + ?E \<longrightarrow>
                column (?F (slices md step (Suc g) ?D) ?s) ! m = ''none''"
    using gap unfolding fin1 by simp
  have room1: "Suc g + ?E < ?D" using room by simp
  have t: "exited_geometry ?t" "draws ?t = draws ?s + SUB_STEPS cfg * (?E + 1)"
    using empty_run[OF s(1,2,3) lens room1 none, of "?E + 1"] by simp_all
  have split2: "slices md step (Suc g) ?D
      = slices md step (Suc g) (Suc g + (?E + 1)) @ slices md step (Suc g + (?E + 1)) ?D"
    using room by (intro slices_append) simp_all
  have fin2: "?final = ?t"
    using t(1) by (simp add: fin1 split2 fill_slices_append fill_slices_exited del: add_Suc add_Suc_right)
  have split3: "slices md step 0 (Suc g + (?E + 1))
      = slices md step 0 (Suc g) @ slices md step (Suc g) (Suc g + (?E + 1))"
    by (intro slices_append) simp_all
  have t0: "?t = ?F (slices md step 0 (Suc g + (?E + 1))) ?st0"
    by (simp only: split3 fill_slices_append)
  have cols: "column ?final ! k = ''none''" if "g + ?E + 1 < k" "k < ?D" for k
  proof -
    have "k \<notin> fst ` set (slices md step 0 (Suc g + (?E + 1)))"
      using that by (simp add: fst_slices)
    then have "column ?final ! k = column ?st0 ! k"
      unfolding fin2 t0 by (rule fill_slices_column_other)
    then show ?thesis using that by (simp add: ray_start_def)
  qed
  have "draws ?final = drawn + SUB_STEPS cfg * (g + ?E + 2)"
    using t(2) s(4) unfolding fin2 by (simp add: algebra_simps)
  then show ?thesis using t(1) cols unfolding fin2[symmetric] by simp
qed

lemma gap_ray_eval:
  "gap_ray = \<lparr>found_geometry = True, exited_geometry = True, empty_count = 1,
              column = [''skeleton'', ''none'', ''none''], draws = 2\<rparr>"
  by (simp add: gap_ray_def fill_ray_def enumerate_depth_values slices_def gap_config_def
      ray_start_def fill_slice_def slice_tags_def voxel_tag_of_def gap_tag_def Let_def
      upt_rec[of 0] upt_rec[of 1] upt_rec[of 2] numeral_3_eq_3)

theorem early_exit_witness:
  "exited_geometry gap_ray \<and> draws gap_ray = 2 \<and> column gap_ray ! 2 = ''none''"
proof -
  have room: "0 + MAX_EMPTY gap_config + 1 < DEPTH_SLICES gap_config"
    by (simp add: gap_config_def)
  have geo: "column (fill_ray gap_config gap_tag (\<lambda>n. 1 / 2) (0, 0, 0) (1, 0, 0) 0 1 0) ! 0 \<noteq> ''none''"
    using gap_ray_eval by (simp add: gap_ray_def)
  have gap: "\<forall>m. 0 < m \<and> m \<le> 0 + MAX_EMPTY gap_config + 1 \<longrightarrow>
      column (fill_ray gap_config gap_tag (\<lambda>n. 1 / 2) (0, 0, 0) (1, 0, 0) 0 1 0) ! m = ''none''"
  proof (intro allI impI)
    fix m :: nat
    assume "0 < m \<and> m \<le> 0 + MAX_EMPTY gap_config + 1"
    then have "m = 1" by (simp add: gap_config_def)
    then show "column (fill_ray gap_config gap_tag (\<lambda>n. 1 / 2) (0, 0, 0) (1, 0, 0) 0 1 0) ! m = ''none''"
      using gap_ray_eval by (simp add: gap_ray_def)
  qed
  show ?thesis
    using early_exit[OF room geo gap] by (simp add: gap_ray_def gap_config_def)
qed


subsection \<open>Nested-volume stack\<close>

lemma march_iter_stack:
  assumes "march_iter rc od cam dir ce st = (ev, st')"
  shows "(\<forall>ob. ev = Entry ob \<longrightarrow> inside_stack st' = inside_stack st @ [ob])
       \<and> (\<forall>ob r. ev = Exit ob r \<longrightarrow> r = (ob \<in> set (inside_stack st)) \<and>
             inside_stack st' = (if r then remove1 ob (inside_stack st) else inside_stack st))
       \<and> (crossing ev = None \<longrightarrow> inside_stack st' = inside_stack st)"
  using assms by (auto simp: march_iter_def Let_def split: option.splits if_splits)

lemma march_chain:
  "n < length (march rc od cam dir ce st) \<Longrightarrow>
   march rc od cam dir ce st ! n =
     march_iter rc od cam dir ce
       (if n = 0 then st else snd (march rc od cam dir ce st ! (n - 1)))"
proof (induction rc od cam dir ce st arbitrary: n rule: march.induct)
  case (1 rc od cam dir ce st)
  let ?r = "march_iter rc od cam dir ce st"
  let ?tr = "march rc od cam dir ce st"
  have lt: "current_dist st < ce"
    using "1.prems" by (subst (asm) march.simps) (auto split: if_splits)
  show ?case
  proof (cases "fst ?r = NoHit")
    case True
    then have tr: "?tr = [?r]" using lt by (subst march.simps) (simp add: Let_def)
    then show ?thesis using "1.prems" by simp
  next
    case False
    let ?tr' = "march rc od cam dir ce (snd ?r)"
    have tr: "?tr = ?r # ?tr'" using lt False by (subst march.simps) (simp add: Let_def)
    show ?thesis
    proof (cases n)
      case 0
      then show ?thesis by (simp add: tr)
    next
      case (Suc m)
      have m: "m < length ?tr'" using "1.prems" Suc by (simp add: tr)
      have ih: "?tr' ! m = march_iter rc od cam dir ce (if m = 0 then snd ?r else snd (?tr' ! (m - 1)))"
        using "1.IH"[OF lt refl False m] .
      show ?thesis
      proof (cases m)
        case 0
        then show ?thesis using ih Suc by (simp add: tr)
      next
        case (Suc k)
        then show ?thesis using ih \<open>n = Suc m\<close> by (simp add: tr)
      qed
    qed
  qed
qed

lemma crossings_append: "crossings (xs @ ys) = crossings xs @ crossings ys"
  by (simp add: crossings_def map_filter_def)

lemma open_solid_append: "open_solid cur (xs @ ys) = open_solid (open_solid cur xs) ys"
  by (induction cur xs rule: open_solid.induct) simp_all

lemma alternating_append:
  "alternating cur (xs @ ys) \<longleftrightarrow> alternating cur xs \<and> alternating (open_solid cur xs) ys"
  by (induction cur xs rule: alternating.induct) auto

lemma crossings_single: "crossings [r] = (case crossing (fst r) of None \<Rightarrow> [] | Some c \<Rightarrow> [c])"
  by (simp add: crossings_def map_filter_def split: option.splits)


lemma stack_steps:
  assumes alt: "alternating None (crossings tr)"
    and tr: "tr = march rc od cam dir ce (march_start cs)"
    and n: "n < length tr"
  shows "stack_after tr n = stack_of (open_solid None (crossings (take (Suc n) tr)))
       \<and> (\<forall>ob. fst (tr ! n) = Entry ob \<longrightarrow> stack_before tr n = [] \<and> stack_after tr n = [ob])
       \<and> (\<forall>ob r. fst (tr ! n) = Exit ob r \<longrightarrow> r \<and> stack_before tr n = [ob] \<and> stack_after tr n = [])
       \<and> (crossing (fst (tr ! n)) = None \<longrightarrow> stack_after tr n = stack_before tr n)"
  using n
proof (induction n)
  case 0
  let ?c = "open_solid None (crossings (take 0 tr))"
  have before: "stack_before tr 0 = stack_of ?c"
    by (simp add: stack_before_def crossings_def map_filter_def)
  have step: "tr ! 0 = march_iter rc od cam dir ce (march_start cs)"
    using march_chain[of 0 rc od cam dir ce "march_start cs"] 0 tr by simp
  have st0: "inside_stack (march_start cs :: 'a march_state) = stack_before tr 0"
    by (simp add: stack_before_def march_start_def)
  have pre: "tr = take (Suc 0) tr @ drop (Suc 0) tr" by simp
  have "alternating None (crossings (take (Suc 0) tr))"
    using alt by (subst (asm) pre) (simp only: crossings_append alternating_append)
  moreover have "take (Suc 0) tr = [tr ! 0]" using 0 by (simp add: take_Suc_conv_app_nth)
  ultimately have a1: "alternating None (crossings [tr ! 0])" by simp
  have ev: "march_iter rc od cam dir ce (march_start cs) = (fst (tr ! 0), snd (tr ! 0))"
    using step by simp
  from march_iter_stack[OF ev] a1 st0 \<open>take (Suc 0) tr = [tr ! 0]\<close> show ?case
    by (cases "fst (tr ! 0)")
       (auto simp: stack_after_def stack_before_def crossings_single march_start_def)
next
  case (Suc n)
  then have n: "n < length tr" by simp
  let ?c = "open_solid None (crossings (take (Suc n) tr))"
  have before: "stack_before tr (Suc n) = stack_of ?c"
    using Suc.IH[OF n] by (simp add: stack_before_def stack_after_def)
  have step: "tr ! Suc n = march_iter rc od cam dir ce (snd (tr ! n))"
    using march_chain[of "Suc n" rc od cam dir ce "march_start cs"] Suc.prems tr by simp
  have st0: "inside_stack (snd (tr ! n)) = stack_before tr (Suc n)"
    by (simp add: stack_before_def)
  have tk: "take (Suc (Suc n)) tr = take (Suc n) tr @ [tr ! Suc n]"
    using Suc.prems by (simp add: take_Suc_conv_app_nth)
  have pre: "tr = take (Suc (Suc n)) tr @ drop (Suc (Suc n)) tr" by simp
  have "alternating None (crossings (take (Suc (Suc n)) tr))"
    using alt by (subst (asm) pre) (simp only: crossings_append alternating_append)
  then have a1: "alternating ?c (crossings [tr ! Suc n])"
    by (simp only: tk crossings_append alternating_append)
  have os: "open_solid None (crossings (take (Suc (Suc n)) tr)) = open_solid ?c (crossings [tr ! Suc n])"
    by (simp only: tk crossings_append open_solid_append)
  have ev: "march_iter rc od cam dir ce (snd (tr ! n)) = (fst (tr ! Suc n), snd (tr ! Suc n))"
    using step by simp
  show ?case
  proof (cases ?c)
    case None
    with march_iter_stack[OF ev] a1 st0 before os show ?thesis
      by (cases "fst (tr ! Suc n)") (auto simp: stack_after_def crossings_single)
  next
    case (Some solid)
    with march_iter_stack[OF ev] a1 st0 before os show ?thesis
      by (cases "fst (tr ! Suc n)") (auto simp: stack_after_def crossings_single)
  qed
qed

lemma stays_empty:
  assumes alt: "alternating None (crossings tr)"
    and tr: "tr = march rc od cam dir ce (march_start cs)"
    and n: "n < length tr"
    and m: "m \<le> n" "stack_before tr m = []"
    and quiet: "\<forall>k. m \<le> k \<and> k \<le> n \<longrightarrow> (\<forall>ob. fst (tr ! k) \<noteq> Entry ob)"
  shows "stack_after tr n = []"
  using n m(1) quiet
proof (induction n)
  case 0
  then have "m = 0" by simp
  with stack_steps[OF alt tr "0.prems"(1)] m(2) "0.prems"(3) show ?case
    by (cases "fst (tr ! 0)") auto
next
  case (Suc n)
  have b: "stack_before tr (Suc n) = []"
  proof (cases "m = Suc n")
    case True
    then show ?thesis using m(2) by simp
  next
    case False
    then have "stack_after tr n = []" using Suc by simp
    then show ?thesis by (simp add: stack_before_def stack_after_def)
  qed
  have "\<forall>ob. fst (tr ! Suc n) \<noteq> Entry ob" using Suc.prems by simp
  with stack_steps[OF alt tr Suc.prems(1)] b show ?case
    by (cases "fst (tr ! Suc n)") auto
qed


text \<open>
  C6. For a ray whose crossings (the hits that are neither closer than \<open>EPS_DIST\<close> nor
  grazing) alternate between entering a solid and leaving that same solid, as they do
  through solids that lie apart: the stack is empty at the start; every entry finds the
  stack empty and leaves it holding the entered solid; every exit finds the stack
  holding that solid, removes it and leaves the stack empty; every other pass keeps the
  stack. So the stack is empty as long as there was no entry, and empty from an exit on
  until the next entry.
\<close>

theorem stack_invariant:
  assumes "alternating None (crossings tr)"
    and "tr = march rc od cam dir ce (march_start cs)"
  shows "stack_before tr 0 = []
       \<and> (\<forall>n<length tr.
            (\<forall>ob. fst (tr ! n) = Entry ob \<longrightarrow> stack_before tr n = [] \<and> stack_after tr n = [ob])
          \<and> (\<forall>ob r. fst (tr ! n) = Exit ob r \<longrightarrow> r \<and> stack_before tr n = [ob] \<and> stack_after tr n = [])
          \<and> (crossing (fst (tr ! n)) = None \<longrightarrow> stack_after tr n = stack_before tr n)
          \<and> stack_after tr n = stack_of (open_solid None (crossings (take (Suc n) tr)))
          \<and> ((\<forall>k\<le>n. \<forall>ob. fst (tr ! k) \<noteq> Entry ob) \<longrightarrow> stack_after tr n = [])
          \<and> (\<forall>m\<le>n. (\<exists>ob r. fst (tr ! m) = Exit ob r) \<and>
                 (\<forall>k. m < k \<and> k \<le> n \<longrightarrow> (\<forall>ob. fst (tr ! k) \<noteq> Entry ob))
               \<longrightarrow> stack_after tr n = []))"
proof (intro conjI allI impI)
  show "stack_before tr 0 = []" by (simp add: stack_before_def)
next
  fix n assume n: "n < length tr"
  note s = stack_steps[OF assms n]
  show "stack_after tr n = stack_of (open_solid None (crossings (take (Suc n) tr)))"
    using s by blast
  show "crossing (fst (tr ! n)) = None \<Longrightarrow> stack_after tr n = stack_before tr n"
    using s by blast
  show "fst (tr ! n) = Entry ob \<Longrightarrow> stack_before tr n = []" for ob using s by blast
  show "fst (tr ! n) = Entry ob \<Longrightarrow> stack_after tr n = [ob]" for ob using s by blast
  show "fst (tr ! n) = Exit ob r \<Longrightarrow> r" for ob r using s by blast
  show "fst (tr ! n) = Exit ob r \<Longrightarrow> stack_before tr n = [ob]" for ob r using s by blast
  show "fst (tr ! n) = Exit ob r \<Longrightarrow> stack_after tr n = []" for ob r using s by blast
  show "stack_after tr n = []" if "\<forall>k\<le>n. \<forall>ob. fst (tr ! k) \<noteq> Entry ob"
    using stays_empty[OF assms n, of 0] that by (simp add: stack_before_def)
  show "stack_after tr n = []"
    if h1: "m \<le> n"
      and h2: "(\<exists>ob r. fst (tr ! m) = Exit ob r) \<and>
           (\<forall>k. m < k \<and> k \<le> n \<longrightarrow> (\<forall>ob. fst (tr ! k) \<noteq> Entry ob))" for m
  proof (cases "m = n")
    case True
    then show ?thesis using h1 h2 s by blast
  next
    case False
    then have lt: "Suc m \<le> n" using h1 by simp
    have ml: "m < length tr" using h1 n by simp
    obtain ob r where "fst (tr ! m) = Exit ob r" using h2 by blast
    then have "stack_after tr m = []" using stack_steps[OF assms ml] by blast
    then have b: "stack_before tr (Suc m) = []" by (simp add: stack_before_def stack_after_def)
    have q: "\<forall>k. Suc m \<le> k \<and> k \<le> n \<longrightarrow> (\<forall>ob. fst (tr ! k) \<noteq> Entry ob)"
      using h2 by (simp add: Suc_le_eq)
    show ?thesis by (rule stays_empty[OF assms n lt b q])
  qed
qed

lemma box_iter1:
  "march_iter box_scene [0 \<mapsto> 1 / 2] (0, 0, 0) (1, 0, 0) 5 (march_start (1 / 10)) =
     (Entry 0, \<lparr>inside_stack = [0], total_density = 0, current_dist = 10001 / 10000\<rparr>)"
  by (simp add: march_iter_def box_scene_def march_start_def EPS_DIST_def DOT_THRESHOLD_def
      stack_density_def Let_def vlength_x del: vlength.simps)

lemma box_iter2:
  "march_iter box_scene [0 \<mapsto> 1 / 2] (0, 0, 0) (1, 0, 0) 5
     \<lparr>inside_stack = [0], total_density = 0, current_dist = 10001 / 10000\<rparr> =
     (Exit 0 True, \<lparr>inside_stack = [], total_density = 9999 / 20000, current_dist = 20001 / 10000\<rparr>)"
  by (simp add: march_iter_def box_scene_def EPS_DIST_def DOT_THRESHOLD_def
      stack_density_def get_default_def Let_def vlength_x del: vlength.simps)

lemma box_iter3:
  "march_iter box_scene [0 \<mapsto> 1 / 2] (0, 0, 0) (1, 0, 0) 5
     \<lparr>inside_stack = [], total_density = 9999 / 20000, current_dist = 20001 / 10000\<rparr> =
     (NoHit, \<lparr>inside_stack = [], total_density = 9999 / 20000, current_dist = 20001 / 10000\<rparr>)"
  by (simp add: march_iter_def box_scene_def stack_density_def Let_def)

lemma box_trace_eval:
  "box_trace =
     [(Entry 0, \<lparr>inside_stack = [0], total_density = 0, current_dist = 10001 / 10000\<rparr>),
      (Exit 0 True, \<lparr>inside_stack = [], total_density = 9999 / 20000, current_dist = 20001 / 10000\<rparr>),
      (NoHit, \<lparr>inside_stack = [], total_density = 9999 / 20000, current_dist = 20001 / 10000\<rparr>)]"
  unfolding box_trace_def
  apply (subst march.simps)
  apply (simp add: box_iter1 march_start_def[of "1 / 10", symmetric] Let_def)
  apply (simp add: march_start_def)
  apply (subst march.simps)
  apply (simp add: box_iter2 Let_def)
  apply (subst march.simps)
  apply (simp add: box_iter3 Let_def)
  done

theorem stack_invariant_witness:
  "stack_before box_trace 0 = [] \<and> stack_after box_trace 0 = [0] \<and>
   stack_before box_trace 1 = [0] \<and> stack_after box_trace 1 = [] \<and>
   stack_after box_trace 2 = []"
proof -
  have alt: "alternating None (crossings box_trace)"
    by (simp add: box_trace_eval crossings_def)
  note t = stack_invariant[OF alt box_trace_def]
  note steps = conjunct2[OF t]
  have len: "0 < length box_trace" "1 < length box_trace" "2 < length box_trace"
    by (simp_all add: box_trace_eval)
  have e0: "fst (box_trace ! 0) = Entry 0" and e1: "fst (box_trace ! 1) = Exit 0 True"
    and e2: "crossing (fst (box_trace ! 2)) = None"
    by (simp_all add: box_trace_eval)
  have s0: "stack_before box_trace 0 = [] \<and> stack_after box_trace 0 = [0]"
    using steps[rule_format, OF len(1), THEN conjunct1] e0 by blast
  have s1: "stack_before box_trace 1 = [0] \<and> stack_after box_trace 1 = []"
    using steps[rule_format, OF len(2), THEN conjunct2, THEN conjunct1] e1 by blast
  have "stack_after box_trace 2 = stack_before box_trace 2"
    using steps[rule_format, OF len(3), THEN conjunct2, THEN conjunct2, THEN conjunct1] e2 by blast
  also have "\<dots> = stack_after box_trace 1"
    by (simp add: stack_before_def stack_after_def)
  finally show ?thesis using s0 s1 by simp
qed


subsection \<open>The builder and the random generator\<close>

lemma build_half:
  "build_voxel_grid one_slice (get_tag far_half one_bone) (\<lambda>n. 1 / 2) lens_cam 1 1 0 1
     = [[[''skeleton'']]]"
  by (simp add: build_voxel_grid_def fill_pixel_def pixel_ray_def lens_cam_def normalized_def
      fill_ray_def enumerate_depth_values slices_def one_slice_def ray_start_def fill_slice_def
      slice_tags_def voxel_tag_of_def get_tag_def far_half_def one_bone_def Let_def)

lemma build_quarter:
  "build_voxel_grid one_slice (get_tag far_half one_bone) (\<lambda>n. if n < 2 then 1 / 2 else 1 / 4)
     lens_cam 1 1 0 1 = [[[''none'']]]"
  by (simp add: build_voxel_grid_def fill_pixel_def pixel_ray_def lens_cam_def normalized_def
      fill_ray_def enumerate_depth_values slices_def one_slice_def ray_start_def fill_slice_def
      slice_tags_def voxel_tag_of_def get_tag_def far_half_def one_bone_def Let_def)

text \<open>
  The builder reads the random generator: with the same scene, camera and parameters,
  two generators that agree on the two jitter values of the pixel and differ in the value
  drawn for the sub-sample give different grids.
\<close>

lemma builder_reads_generator:
  "build_voxel_grid one_slice (get_tag far_half one_bone) (\<lambda>n. 1 / 2) lens_cam 1 1 0 1
     \<noteq> build_voxel_grid one_slice (get_tag far_half one_bone)
         (\<lambda>n. if n < 2 then 1 / 2 else 1 / 4) lens_cam 1 1 0 1"
  unfolding build_half build_quarter by simp

subsection \<open>What one erosion step computes\<close>

text \<open>
  For a rectangular mask, the cell \<open>(i, j, k)\<close> of the next mask is true exactly when it
  is not on the border and its six face neighbours are true in the current mask. The
  cell's own value does not enter.
\<close>

lemma inner_bounds: "slice_lo inner n = min 1 n" "slice_hi inner n = n - 1"
  by (auto simp: slice_lo_def slice_hi_def slice_bound_def inner_def)

lemma lower_bounds: "slice_lo lower n = 0" "slice_hi lower n = n - 2"
  by (auto simp: slice_lo_def slice_hi_def slice_bound_def lower_def)

lemma upper_bounds: "slice_lo upper n = min 2 n" "slice_hi upper n = n"
  by (auto simp: slice_lo_def slice_hi_def slice_bound_def upper_def)

lemma length_slices [simp]:
  "length (py_slice inner xs) = length xs - 2"
  "length (py_slice lower xs) = length xs - 2"
  "length (py_slice upper xs) = length xs - 2"
  by (auto simp: py_slice_def Let_def inner_bounds lower_bounds upper_bounds)

lemma nth_slices:
  assumes "i < length xs - 2"
  shows "py_slice inner xs ! i = xs ! Suc i"
    and "py_slice lower xs ! i = xs ! i"
    and "py_slice upper xs ! i = xs ! Suc (Suc i)"
  using assms by (auto simp: py_slice_def Let_def inner_bounds lower_bounds upper_bounds min_def)

lemma length_set_inner:
  assumes "length vs = length xs - 2"
  shows "length (set_slice inner f xs vs) = length xs"
  using assms by (auto simp: set_slice_def Let_def inner_bounds min_def max_def)

lemma nth_set_inner:
  assumes "length vs = length xs - 2" "i < length xs"
  shows "set_slice inner f xs vs ! i =
           (if 0 < i \<and> Suc i < length xs then f (xs ! i) (vs ! (i - 1)) else xs ! i)"
proof (cases "length xs < 2")
  case True
  then show ?thesis using assms
    by (auto simp: set_slice_def Let_def inner_bounds min_def max_def)
next
  case False
  then have n: "2 \<le> length xs" by simp
  have eq: "set_slice inner f xs vs
      = take 1 xs @ map2 f (take (length xs - 2) (drop 1 xs)) vs @ drop (length xs - 1) xs"
    using n by (auto simp: set_slice_def Let_def inner_bounds min_def max_def numeral_2_eq_2)
  consider "i = 0" | "0 < i" "Suc i < length xs" | "Suc i = length xs" "0 < i"
    using assms(2) by linarith
  then show ?thesis
  proof cases
    case 1
    then show ?thesis using n by (simp add: eq nth_append)
  next
    case 2
    then have "i - 1 < length xs - 2" by linarith
    then show ?thesis using 2 n assms(1) by (simp add: eq nth_append)
  next
    case 3
    then have "\<not> i - 1 < length xs - 2" "length xs - 1 = i" by linarith+
    then show ?thesis using 3 n assms(1) by (simp add: eq nth_append)
  qed
qed


lemma shape3_zeros_like: "shape3 a nx ny nz \<Longrightarrow> shape3 (zeros_like a) nx ny nz"
  by (simp add: shape3_nth zeros_like_def)

lemma nth_zeros_like:
  "shape3 a nx ny nz \<Longrightarrow> i < nx \<Longrightarrow> j < ny \<Longrightarrow> k < nz \<Longrightarrow> zeros_like a ! i ! j ! k = False"
  by (simp add: shape3_nth zeros_like_def)

lemma shape3_and3:
  "shape3 a nx ny nz \<Longrightarrow> shape3 b nx ny nz \<Longrightarrow> shape3 (and3 a b) nx ny nz"
  by (simp add: shape3_nth and3_def)

lemma nth_and3:
  "shape3 a nx ny nz \<Longrightarrow> shape3 b nx ny nz \<Longrightarrow> i < nx \<Longrightarrow> j < ny \<Longrightarrow> k < nz \<Longrightarrow>
   and3 a b ! i ! j ! k = (a ! i ! j ! k \<and> b ! i ! j ! k)"
  by (simp add: shape3_nth and3_def)

lemma length_py_slice:
  assumes "s \<in> {lower, inner, upper}"
  shows "length (py_slice s xs) = length xs - 2"
  using assms by auto

lemma nth_py_slice:
  assumes "s \<in> {lower, inner, upper}" "i < length xs - 2"
  shows "py_slice s xs ! i = xs ! (i + off s)"
  using assms(1) nth_slices[OF assms(2)]
  by (auto simp: off_def lower_def inner_def upper_def)

lemma off_le: "off s \<le> 2"
  by (simp add: off_def)

lemma nth_slice3:
  assumes a: "shape3 a nx ny nz"
    and s: "sx \<in> {lower, inner, upper}" "sy \<in> {lower, inner, upper}" "sz \<in> {lower, inner, upper}"
    and i: "i < nx - 2" and j: "j < ny - 2" and k: "k < nz - 2"
  shows "slice3 sx sy sz a ! i ! j ! k = a ! (i + off sx) ! (j + off sy) ! (k + off sz)"
proof -
  have ix: "i + off sx < nx" using i off_le[of sx] by linarith
  have jy: "j + off sy < ny" using j off_le[of sy] by linarith
  have la: "length a = nx" and lp: "length (a ! (i + off sx)) = ny"
    and lr: "length (a ! (i + off sx) ! (j + off sy)) = nz"
    using a ix jy by (simp_all add: shape3_nth)
  have "slice3 sx sy sz a ! i = map (py_slice sz) (py_slice sy (py_slice sx a ! i))"
    using i la by (simp add: slice3_def length_py_slice[OF s(1)])
  also have "py_slice sx a ! i = a ! (i + off sx)"
    using i la by (simp add: nth_py_slice[OF s(1)])
  finally have "slice3 sx sy sz a ! i ! j = py_slice sz (py_slice sy (a ! (i + off sx)) ! j)"
    using j lp by (simp add: length_py_slice[OF s(2)])
  also have "py_slice sy (a ! (i + off sx)) ! j = a ! (i + off sx) ! (j + off sy)"
    using j lp by (simp add: nth_py_slice[OF s(2)])
  finally show ?thesis
    using k lr by (simp add: nth_py_slice[OF s(3)])
qed

lemma shape3_slice3:
  assumes a: "shape3 a nx ny nz"
    and s: "sx \<in> {lower, inner, upper}" "sy \<in> {lower, inner, upper}" "sz \<in> {lower, inner, upper}"
  shows "shape3 (slice3 sx sy sz a) (nx - 2) (ny - 2) (nz - 2)"
proof -
  have la: "length a = nx" using a by (simp add: shape3_nth)
  have 1: "length (slice3 sx sy sz a) = nx - 2"
    by (simp add: slice3_def length_py_slice[OF s(1)] la)
  have 2: "length (slice3 sx sy sz a ! i) = ny - 2
           \<and> (\<forall>j<ny - 2. length (slice3 sx sy sz a ! i ! j) = nz - 2)" if i: "i < nx - 2" for i
  proof -
    have ix: "i + off sx < nx" using i off_le[of sx] by linarith
    have lp: "length (a ! (i + off sx)) = ny" using a ix by (simp add: shape3_nth)
    have e: "slice3 sx sy sz a ! i = map (py_slice sz) (py_slice sy (a ! (i + off sx)))"
      using i la by (simp add: slice3_def length_py_slice[OF s(1)] nth_py_slice[OF s(1)])
    have "length (slice3 sx sy sz a ! i ! j) = nz - 2" if j: "j < ny - 2" for j
    proof -
      have jy: "j + off sy < ny" using j off_le[of sy] by linarith
      have lr: "length (a ! (i + off sx) ! (j + off sy)) = nz"
        using a ix jy by (simp add: shape3_nth)
      show ?thesis
        using j lp lr
        by (simp add: e length_py_slice[OF s(2)] nth_py_slice[OF s(2)] length_py_slice[OF s(3)])
    qed
    then show ?thesis using lp by (simp add: e length_py_slice[OF s(2)])
  qed
  show ?thesis using 1 2 by (simp add: shape3_nth)
qed


lemma nth_set_slice3_inner:
  assumes z: "shape3 z nx ny nz" and v: "shape3 v (nx - 2) (ny - 2) (nz - 2)"
    and i: "i < nx" and j: "j < ny" and k: "k < nz"
  shows "set_slice3 inner inner inner z v ! i ! j ! k =
           (if 0 < i \<and> Suc i < nx \<and> 0 < j \<and> Suc j < ny \<and> 0 < k \<and> Suc k < nz
            then v ! (i - 1) ! (j - 1) ! (k - 1) else z ! i ! j ! k)"
proof -
  let ?G = "set_slice inner (\<lambda>old new. new)"
  let ?F = "set_slice inner ?G"
  have lz: "length z = nx" and lv: "length v = length z - 2"
    using z v by (simp_all add: shape3_nth)
  have lzi: "length (z ! i) = ny" and lzij: "length (z ! i ! j) = nz"
    using z i j by (simp_all add: shape3_nth)
  have top: "set_slice3 inner inner inner z v ! i =
               (if 0 < i \<and> Suc i < nx then ?F (z ! i) (v ! (i - 1)) else z ! i)"
    using i lz by (simp add: set_slice3_def nth_set_inner[OF lv])
  show ?thesis
  proof (cases "0 < i \<and> Suc i < nx")
    case False
    then show ?thesis using top by auto
  next
    case True
    then have i1: "i - 1 < nx - 2" by linarith
    have lvi: "length (v ! (i - 1)) = length (z ! i) - 2"
      using v i1 lzi by (simp add: shape3_nth)
    have mid: "?F (z ! i) (v ! (i - 1)) ! j =
                 (if 0 < j \<and> Suc j < ny then ?G (z ! i ! j) (v ! (i - 1) ! (j - 1)) else z ! i ! j)"
      using j lzi nth_set_inner[OF lvi, of j ?G] by simp
    show ?thesis
    proof (cases "0 < j \<and> Suc j < ny")
      case False
      then show ?thesis using top True mid by auto
    next
      case jin: True
      then have j1: "j - 1 < ny - 2" by linarith
      have lvij: "length (v ! (i - 1) ! (j - 1)) = length (z ! i ! j) - 2"
        using v i1 j1 lzij by (simp add: shape3_nth)
      have "?G (z ! i ! j) (v ! (i - 1) ! (j - 1)) ! k =
              (if 0 < k \<and> Suc k < nz then v ! (i - 1) ! (j - 1) ! (k - 1) else z ! i ! j ! k)"
        using k lzij nth_set_inner[OF lvij, of k "\<lambda>old new. new"] by simp
      then show ?thesis using top True mid jin by simp
    qed
  qed
qed

lemma members: "lower \<in> {lower, inner, upper}" "inner \<in> {lower, inner, upper}"
  "upper \<in> {lower, inner, upper}"
  by simp_all

lemma off_values: "off lower = 0" "off inner = 1" "off upper = 2"
  by (simp_all add: off_def lower_def inner_def upper_def)

lemma erode_step_cell:
  assumes m: "shape3 m nx ny nz" and i: "i < nx" and j: "j < ny" and k: "k < nz"
  shows "erode_step m ! i ! j ! k \<longleftrightarrow>
           0 < i \<and> Suc i < nx \<and> 0 < j \<and> Suc j < ny \<and> 0 < k \<and> Suc k < nz \<and>
           m ! (i - 1) ! j ! k \<and> m ! Suc i ! j ! k \<and>
           m ! i ! (j - 1) ! k \<and> m ! i ! Suc j ! k \<and>
           m ! i ! j ! (k - 1) \<and> m ! i ! j ! Suc k"
proof -
  let ?a = "slice3 lower inner inner m" and ?b = "slice3 upper inner inner m"
  let ?c = "slice3 inner lower inner m" and ?d = "slice3 inner upper inner m"
  let ?e = "slice3 inner inner lower m" and ?f = "slice3 inner inner upper m"
  let ?v = "and3 (and3 (and3 (and3 (and3 ?a ?b) ?c) ?d) ?e) ?f"
  note sh = shape3_slice3[OF m]
  have sa: "shape3 ?a (nx - 2) (ny - 2) (nz - 2)" and sb: "shape3 ?b (nx - 2) (ny - 2) (nz - 2)"
    and sc: "shape3 ?c (nx - 2) (ny - 2) (nz - 2)" and sd: "shape3 ?d (nx - 2) (ny - 2) (nz - 2)"
    and se: "shape3 ?e (nx - 2) (ny - 2) (nz - 2)" and sf: "shape3 ?f (nx - 2) (ny - 2) (nz - 2)"
    by (simp_all add: sh members)
  note s1 = shape3_and3[OF sa sb]
  note s2 = shape3_and3[OF s1 sc]
  note s3 = shape3_and3[OF s2 sd]
  note s4 = shape3_and3[OF s3 se]
  note s5 = shape3_and3[OF s4 sf]
  have cell: "erode_step m ! i ! j ! k =
      (if 0 < i \<and> Suc i < nx \<and> 0 < j \<and> Suc j < ny \<and> 0 < k \<and> Suc k < nz
       then ?v ! (i - 1) ! (j - 1) ! (k - 1) else zeros_like m ! i ! j ! k)"
    unfolding erode_step_def
    by (rule nth_set_slice3_inner[OF shape3_zeros_like[OF m] s5 i j k])
  show ?thesis
  proof (cases "0 < i \<and> Suc i < nx \<and> 0 < j \<and> Suc j < ny \<and> 0 < k \<and> Suc k < nz")
    case False
    then show ?thesis using cell nth_zeros_like[OF m i j k] by auto
  next
    case True
    then have r: "i - 1 < nx - 2" "j - 1 < ny - 2" "k - 1 < nz - 2" by linarith+
    note n = nth_slice3[OF m _ _ _ r]
    have "?v ! (i - 1) ! (j - 1) ! (k - 1) \<longleftrightarrow>
            ?a ! (i - 1) ! (j - 1) ! (k - 1) \<and> ?b ! (i - 1) ! (j - 1) ! (k - 1) \<and>
            ?c ! (i - 1) ! (j - 1) ! (k - 1) \<and> ?d ! (i - 1) ! (j - 1) ! (k - 1) \<and>
            ?e ! (i - 1) ! (j - 1) ! (k - 1) \<and> ?f ! (i - 1) ! (j - 1) ! (k - 1)"
      using nth_and3[OF s4 sf r] nth_and3[OF s3 se r] nth_and3[OF s2 sd r]
          nth_and3[OF s1 sc r] nth_and3[OF sa sb r] by simp
    also have "\<dots> \<longleftrightarrow> m ! (i - 1) ! j ! k \<and> m ! Suc i ! j ! k \<and>
           m ! i ! (j - 1) ! k \<and> m ! i ! Suc j ! k \<and>
           m ! i ! j ! (k - 1) \<and> m ! i ! j ! Suc k"
      using True n[OF members(1) members(2) members(2)] n[OF members(3) members(2) members(2)]
        n[OF members(2) members(1) members(2)] n[OF members(2) members(3) members(2)]
        n[OF members(2) members(2) members(1)] n[OF members(2) members(2) members(3)]
      by (simp add: off_values)
    finally show ?thesis using cell True by simp
  qed
qed

lemma erode_step_border:
  assumes "shape3 m nx ny nz" "i < nx" "j < ny" "k < nz"
    and "i = 0 \<or> Suc i = nx \<or> j = 0 \<or> Suc j = ny \<or> k = 0 \<or> Suc k = nz"
  shows "\<not> erode_step m ! i ! j ! k"
  using assms(5) by (auto simp: erode_step_cell[OF assms(1-4)])

end
